theory Spec2Isabelle
  imports Complex_Main "HOL-Library.Word" "HOL-Library.Sublist" "HOL-Library.AList"
begin

section \<open>Post-processing of phrase-indexed question answering (post.py)\<close>

text \<open>
  Python integers are modelled as \<open>int\<close>, positions produced by \<open>range\<close> and
  \<open>enumerate\<close> as \<open>nat\<close>, floating-point scores as \<open>real\<close> (only comparisons,
  negation and the affine quantisation arithmetic are used; rounding of the float
  formats is not modelled), Python strings as \<open>string\<close>, dictionaries as maps, and
  every exception the modelled code can raise as the left summand of a result type.
\<close>

datatype py_error =
  IndexError | KeyError | TypeError | ZeroDivisionError | ValueError | AssertionError
  | AttributeError

text \<open>Sequencing of computations that may raise.\<close>

definition bind_err :: "py_error + 'a \<Rightarrow> ('a \<Rightarrow> py_error + 'b) \<Rightarrow> py_error + 'b" where
  "bind_err r f = (case r of Inl e \<Rightarrow> Inl e | Inr v \<Rightarrow> f v)"

subsection \<open>Python list and string primitives\<close>

text \<open>
  \<open>xs[lo:hi]\<close> with Python's treatment of negative and out-of-range bounds: a negative
  bound counts from the end, and both bounds are clipped to the list. Slicing never
  raises.
\<close>

definition py_slice :: "'a list \<Rightarrow> int \<Rightarrow> int \<Rightarrow> 'a list" where
  "py_slice xs lo hi =
     (let n = int (length xs);
          lo' = (if lo < 0 then max (lo + n) 0 else min lo n);
          hi' = (if hi < 0 then max (hi + n) 0 else min hi n)
      in take (nat (hi' - lo')) (drop (nat lo') xs))"

text \<open>\<open>" ".join(xs)\<close>\<close>

fun join_space :: "string list \<Rightarrow> string" where
  "join_space [] = []"
| "join_space [x] = x"
| "join_space (x # y # ys) = x @ '' '' @ join_space (y # ys)"

text \<open>\<open>xs[i]\<close> for a position that is not negative.\<close>

definition py_nth :: "'a list \<Rightarrow> nat \<Rightarrow> py_error + 'a" where
  "py_nth xs i = (if i < length xs then Inr (xs ! i) else Inl IndexError)"

text \<open>\<open>d[k]\<close> on a dictionary.\<close>

definition py_lookup :: "('k \<rightharpoonup> 'v) \<Rightarrow> 'k \<Rightarrow> py_error + 'v" where
  "py_lookup d k = (case d k of None \<Rightarrow> Inl KeyError | Some v \<Rightarrow> Inr v)"

text \<open>
  \<open>c.isspace()\<close> on the ASCII range: tab to carriage return, the four separators
  \<open>0x1c\<close> to \<open>0x1f\<close>, and the space. Characters beyond ASCII are not modelled.
\<close>

definition py_isspace :: "char \<Rightarrow> bool" where
  "py_isspace c \<longleftrightarrow> (let n = of_char c :: nat in (9 \<le> n \<and> n \<le> 13) \<or> (28 \<le> n \<and> n \<le> 32))"

text \<open>\<open>s.strip()\<close>\<close>

definition str_strip :: "string \<Rightarrow> string" where
  "str_strip s = rev (dropWhile py_isspace (rev (dropWhile py_isspace s)))"

text \<open>\<open>s.split()\<close>: the maximal runs of characters that are not whitespace.\<close>

fun str_split_acc :: "string \<Rightarrow> string \<Rightarrow> string list" where
  "str_split_acc [] word = (if word = [] then [] else [word])"
| "str_split_acc (c # cs) word =
     (if py_isspace c then (if word = [] then str_split_acc cs [] else word # str_split_acc cs [])
      else str_split_acc cs (word @ [c]))"

definition str_split :: "string \<Rightarrow> string list" where
  "str_split s = str_split_acc s []"

text \<open>
  \<open>s.replace(old, new)\<close> for a pattern \<open>old\<close> that is not empty (the only use is with
  the patterns \<open>" ##"\<close> and \<open>"##"\<close>): occurrences are replaced from the left, without
  overlap.
\<close>

function str_replace :: "string \<Rightarrow> string \<Rightarrow> string \<Rightarrow> string" where
  "str_replace [] old new = []"
| "str_replace (c # cs) old new =
     (if old \<noteq> [] \<and> prefix old (c # cs)
      then new @ str_replace (drop (length old) (c # cs)) old new
      else c # str_replace cs old new)"
  by pat_completeness auto
termination
proof (relation "measure (\<lambda>(s, old, new). length s)")
  show "wf (measure (\<lambda>(s, old, new). length s))" by simp
next
  fix c :: char and cs old new :: string
  assume "old \<noteq> [] \<and> prefix old (c # cs)"
  then have "0 < length old" by simp
  then show "((drop (length old) (c # cs), old, new), c # cs, old, new)
               \<in> measure (\<lambda>(s, old, new). length s)"
    by simp
next
  fix c :: char and cs old new :: string
  show "((cs, old, new), c # cs, old, new) \<in> measure (\<lambda>(s, old, new). length s)"
    by simp
qed

text \<open>\<open>xs[i]\<close> for any integer: a negative index counts from the end.\<close>

definition py_index :: "'a list \<Rightarrow> int \<Rightarrow> py_error + 'a" where
  "py_index xs i =
     (if 0 \<le> i \<and> i < int (length xs) then Inr (xs ! nat i)
      else if i < 0 \<and> - int (length xs) \<le> i then Inr (xs ! nat (int (length xs) + i))
      else Inl IndexError)"

text \<open>A \<open>for\<close> loop whose body may raise: the state is threaded, the first error ends it.\<close>

fun fold_err :: "('a \<Rightarrow> 's \<Rightarrow> py_error + 's) \<Rightarrow> 'a list \<Rightarrow> 's \<Rightarrow> py_error + 's" where
  "fold_err f [] s = Inr s"
| "fold_err f (x # xs) s = bind_err (f x s) (fold_err f xs)"

subsection \<open>Sliding windows: \<open>_check_is_max_context\<close>\<close>









subsection \<open>Answer span refinement: \<open>_improve_answer_span\<close>\<close>

text \<open>
  The inner loop \<open>for new_end in range(input_end, new_start - 1, -1)\<close> and the outer
  loop \<open>for new_start in range(input_start, input_end + 1)\<close>, each returning at the
  first match. \<open>None\<close> means that the loop ran to its end. The tokenizer is a
  collaborator outside the repository and is passed as a function.
\<close>

fun improve_inner :: "string list \<Rightarrow> string \<Rightarrow> int \<Rightarrow> int list \<Rightarrow> (int \<times> int) option" where
  "improve_inner doc_tokens tok_answer_text new_start [] = None"
| "improve_inner doc_tokens tok_answer_text new_start (new_end # ends) =
     (let text_span = join_space (py_slice doc_tokens new_start (new_end + 1)) in
      if text_span = tok_answer_text then Some (new_start, new_end)
      else improve_inner doc_tokens tok_answer_text new_start ends)"

fun improve_outer :: "string list \<Rightarrow> string \<Rightarrow> int \<Rightarrow> int list \<Rightarrow> (int \<times> int) option" where
  "improve_outer doc_tokens tok_answer_text input_end [] = None"
| "improve_outer doc_tokens tok_answer_text input_end (new_start # starts) =
     (case improve_inner doc_tokens tok_answer_text new_start (rev [new_start..input_end]) of
        Some r \<Rightarrow> Some r
      | None \<Rightarrow> improve_outer doc_tokens tok_answer_text input_end starts)"

definition improve_answer_span ::
  "string list \<Rightarrow> int \<Rightarrow> int \<Rightarrow> (string \<Rightarrow> string list) \<Rightarrow> string \<Rightarrow> int \<times> int" where
  "improve_answer_span doc_tokens input_start input_end tokenizer orig_answer_text =
     (let tok_answer_text = join_space (tokenizer orig_answer_text) in
      case improve_outer doc_tokens tok_answer_text input_end [input_start..input_end] of
        Some r \<Rightarrow> r
      | None \<Rightarrow> (input_start, input_end))"

text \<open>
  A sub-span \<open>[a, b]\<close> of \<open>[input_start, input_end]\<close> whose space-joined tokens
  \<open>" ".join(doc_tokens[a:b + 1])\<close> equal the space-joined tokenized answer.
\<close>

definition span_matches :: "string list \<Rightarrow> string \<Rightarrow> int \<Rightarrow> int \<Rightarrow> int \<Rightarrow> int \<Rightarrow> bool" where
  "span_matches doc_tokens answer input_start input_end a b \<longleftrightarrow>
     input_start \<le> a \<and> a \<le> b \<and> b \<le> input_end \<and>
     join_space (py_slice doc_tokens a (b + 1)) = answer"

definition tokens_1895 :: "string list" where
  "tokens_1895 = [''('', ''1895'', ''-'', ''1943'', '')'', ''.'']"

subsection \<open>Quantisation: \<open>float_to_int8\<close> and \<open>int8_to_float\<close>\<close>





subsection \<open>Document metadata and \<open>filter_metadata\<close>\<close>

text \<open>
  The metadata dictionary built by \<open>get_metadata\<close>, one field per key. Arrays with one
  row per token are lists of rows. The keys \<open>f2o_start\<close> and \<open>f2o_end\<close> exist only after
  filtering; the sparse maps and \<open>input_ids\<close> are \<open>None\<close> when the model produced no
  sparse scores.
\<close>

record metadata =
  md_did :: int
  md_context :: string
  md_title :: string
  md_start :: "real list list"
  md_end :: "real list list"
  md_span_logits :: "real list list"
  md_start2end :: "int list list"
  md_word2char_start :: "int list"
  md_word2char_end :: "int list"
  md_filter_start :: "real list"
  md_filter_end :: "real list"
  md_input_ids :: "int list option"
  md_sparse :: "real list list option"
  md_sparse_bi :: "real list list option"
  md_sparse_tri :: "real list list option"
  md_len_per_para :: "nat list"
  md_f2o_start :: "nat list option"
  md_f2o_end :: "nat list option"

text \<open>\<open>np.where(xs > threshold)\<close> on a one-dimensional array: the positions, ascending.\<close>

definition np_where_gt :: "real list \<Rightarrow> real \<Rightarrow> nat list" where
  "np_where_gt xs threshold = filter (\<lambda>i. xs ! i > threshold) [0..<length xs]"

text \<open>
  \<open>a[idxs]\<close> with an index array: the selected rows as a new array; \<open>IndexError\<close> when
  an index is out of bounds.
\<close>

definition take_rows :: "'a list \<Rightarrow> nat list \<Rightarrow> py_error + 'a list" where
  "take_rows a idxs =
     (if list_all (\<lambda>i. i < length a) idxs then Inr (map (\<lambda>i. a ! i) idxs) else Inl IndexError)"

text \<open>The same on a value that may be \<open>None\<close>: subscripting \<open>None\<close> is a \<open>TypeError\<close>.\<close>

definition take_rows_opt :: "'a list option \<Rightarrow> nat list \<Rightarrow> py_error + 'a list" where
  "take_rows_opt a idxs = (case a of None \<Rightarrow> Inl TypeError | Some rows \<Rightarrow> take_rows rows idxs)"

text \<open>\<open>{long: short for short, long in enumerate(end_idxs)}\<close>; a later pair overrides.\<close>

definition end_long2short :: "nat list \<Rightarrow> (int \<rightharpoonup> int)" where
  "end_long2short end_idxs =
     map_of (rev (map (\<lambda>(short, long). (int long, int short)) (enumerate 0 end_idxs)))"

text \<open>The double loop rewriting every cell of the selected \<open>start2end\<close> rows.\<close>

definition remap_start2end :: "(int \<rightharpoonup> int) \<Rightarrow> int list list \<Rightarrow> int list list" where
  "remap_start2end l2s rows =
     map (\<lambda>each. map (\<lambda>long. case l2s long of Some short \<Rightarrow> short | None \<Rightarrow> - 1) each) rows"

definition filter_metadata :: "metadata \<Rightarrow> real \<Rightarrow> py_error + metadata" where
  "filter_metadata metadata threshold =
     (let start_idxs = np_where_gt (md_filter_start metadata) threshold;
          end_idxs = np_where_gt (md_filter_end metadata) threshold;
          l2s = end_long2short end_idxs
      in bind_err (take_rows (md_start metadata) start_idxs) (\<lambda>start'.
         bind_err (take_rows (md_end metadata) end_idxs) (\<lambda>end'.
         bind_err (take_rows_opt (md_sparse metadata) start_idxs) (\<lambda>sparse'.
         bind_err (case md_sparse_bi metadata of None \<Rightarrow> Inr None
                   | Some rows \<Rightarrow> bind_err (take_rows rows start_idxs) (\<lambda>r. Inr (Some r))) (\<lambda>sparse_bi'.
         bind_err (case md_sparse_tri metadata of None \<Rightarrow> Inr None
                   | Some rows \<Rightarrow> bind_err (take_rows rows start_idxs) (\<lambda>r. Inr (Some r))) (\<lambda>sparse_tri'.
         bind_err (take_rows (md_span_logits metadata) start_idxs) (\<lambda>span_logits'.
         bind_err (take_rows (md_start2end metadata) start_idxs) (\<lambda>start2end'.
           Inr (metadata
                 \<lparr> md_start := start',
                   md_end := end',
                   md_sparse := Some sparse',
                   md_sparse_bi := sparse_bi',
                   md_sparse_tri := sparse_tri',
                   md_f2o_start := Some start_idxs,
                   md_f2o_end := Some end_idxs,
                   md_span_logits := span_logits',
                   md_start2end := remap_start2end l2s start2end' \<rparr>)))))))))"

text \<open>A small record with two tokens, and what filtering at threshold 0.5 makes of it.\<close>

definition md_example :: metadata where
  "md_example =
     \<lparr> md_did = 7, md_context = ''a b'', md_title = ''t'',
       md_start = [[1], [2]], md_end = [[3], [4]],
       md_span_logits = [[0, 0], [0, 0]],
       md_start2end = [[0, 1], [1, - 1]],
       md_word2char_start = [0, 2], md_word2char_end = [1, 3],
       md_filter_start = [1, 1], md_filter_end = [0, 1],
       md_input_ids = Some [5, 6],
       md_sparse = Some [[0, 0], [0, 0]], md_sparse_bi = None, md_sparse_tri = None,
       md_len_per_para = [2],
       md_f2o_start = None, md_f2o_end = None \<rparr>"

definition md_example_filtered :: metadata where
  "md_example_filtered =
     md_example \<lparr> md_start := [[1], [2]], md_end := [[4]],
                  md_sparse := Some [[0, 0], [0, 0]],
                  md_f2o_start := Some [0, 1], md_f2o_end := Some [1],
                  md_start2end := [[- 1, 0], [0, - 1]] \<rparr>"

subsection \<open>Text alignment: \<open>get_final_text\<close> and \<open>nq_get_final_text\<close>\<close>

text \<open>
  \<open>text.find(pat)\<close>: the lowest position where \<open>pat\<close> starts, or \<open>-1\<close>. The empty
  pattern is found at position 0.
\<close>

fun str_find_from :: "string \<Rightarrow> string \<Rightarrow> nat \<Rightarrow> nat option" where
  "str_find_from [] pat i = (if pat = [] then Some i else None)"
| "str_find_from (c # cs) pat i =
     (if prefix pat (c # cs) then Some i else str_find_from cs pat (Suc i))"

definition str_find :: "string \<Rightarrow> string \<Rightarrow> int" where
  "str_find text pat = (case str_find_from text pat 0 of None \<Rightarrow> - 1 | Some i \<Rightarrow> int i)"

text \<open>
  The local function \<open>_strip_spaces\<close> of both alignment functions. The ordered
  dictionary \<open>ns_to_s_map\<close> is an association list in insertion order; assignment to
  a key is \<open>AList.update\<close>.
\<close>

definition strip_spaces_step ::
  "nat \<times> char \<Rightarrow> string \<times> (int \<times> int) list \<Rightarrow> string \<times> (int \<times> int) list" where
  "strip_spaces_step = (\<lambda>(i, c) (ns_chars, ns_to_s_map).
     if c = CHR '' '' then (ns_chars, ns_to_s_map)
     else (ns_chars @ [c], AList.update (int (length ns_chars)) (int i) ns_to_s_map))"

definition strip_spaces :: "string \<Rightarrow> string \<times> (int \<times> int) list" where
  "strip_spaces text = fold strip_spaces_step (enumerate 0 text) ([], [])"

text \<open>
  The loop \<open>for (i, tok_index) in six.iteritems(tok_ns_to_s_map):
  tok_s_to_ns_map[tok_index] = i\<close>.
\<close>

definition invert_map :: "(int \<times> int) list \<Rightarrow> (int \<rightharpoonup> int)" where
  "invert_map items = fold (\<lambda>(i, tok_index) m. m(tok_index \<mapsto> i)) items Map.empty"

text \<open>
  The two lookups that project a position of the re-tokenized text to the original
  text; \<open>None\<close> when either key is missing.
\<close>

definition project_position ::
  "(int \<rightharpoonup> int) \<Rightarrow> (int \<times> int) list \<Rightarrow> int \<Rightarrow> int option" where
  "project_position tok_s_to_ns_map orig_ns_to_s_map position =
     (case tok_s_to_ns_map position of
        None \<Rightarrow> None
      | Some ns_position \<Rightarrow> map_of orig_ns_to_s_map ns_position)"

text \<open>
  \<open>get_final_text\<close> returns a pair of offsets. The basic tokenizer is outside the
  repository: \<open>tokenize do_lower_case\<close> stands for
  \<open>BasicTokenizer(do_lower_case=do_lower_case).tokenize\<close>. Log messages are not
  modelled, so \<open>verbose_logging\<close> has no effect on the result.
\<close>

definition get_final_text ::
  "(bool \<Rightarrow> string \<Rightarrow> string list) \<Rightarrow> string \<Rightarrow> string \<Rightarrow> bool \<Rightarrow> int \<times> int" where
  "get_final_text tokenize pred_text orig_text do_lower_case =
     (let default_out = (0, int (length orig_text));
          tok_text = join_space (tokenize do_lower_case orig_text);
          start_position = str_find tok_text pred_text
      in if start_position = - 1 then default_out
         else
           let end_position = start_position + int (length pred_text) - 1;
               (orig_ns_text, orig_ns_to_s_map) = strip_spaces orig_text;
               (tok_ns_text, tok_ns_to_s_map) = strip_spaces tok_text
           in if length orig_ns_text \<noteq> length tok_ns_text then default_out
              else
                let tok_s_to_ns_map = invert_map tok_ns_to_s_map in
                case project_position tok_s_to_ns_map orig_ns_to_s_map start_position of
                  None \<Rightarrow> default_out
                | Some orig_start_position \<Rightarrow>
                   (case project_position tok_s_to_ns_map orig_ns_to_s_map end_position of
                      None \<Rightarrow> default_out
                    | Some orig_end_position \<Rightarrow> (orig_start_position, orig_end_position + 1)))"

text \<open>\<open>nq_get_final_text\<close> returns the text itself.\<close>

definition nq_get_final_text ::
  "(bool \<Rightarrow> string \<Rightarrow> string list) \<Rightarrow> string \<Rightarrow> string \<Rightarrow> bool \<Rightarrow> string" where
  "nq_get_final_text tokenize pred_text orig_text do_lower_case =
     (let tok_text = join_space (tokenize do_lower_case orig_text);
          start_position = str_find tok_text pred_text
      in if start_position = - 1 then orig_text
         else
           let end_position = start_position + int (length pred_text) - 1;
               (orig_ns_text, orig_ns_to_s_map) = strip_spaces orig_text;
               (tok_ns_text, tok_ns_to_s_map) = strip_spaces tok_text
           in if length orig_ns_text \<noteq> length tok_ns_text then orig_text
              else
                let tok_s_to_ns_map = invert_map tok_ns_to_s_map in
                case project_position tok_s_to_ns_map orig_ns_to_s_map start_position of
                  None \<Rightarrow> orig_text
                | Some orig_start_position \<Rightarrow>
                   (case project_position tok_s_to_ns_map orig_ns_to_s_map end_position of
                      None \<Rightarrow> orig_text
                    | Some orig_end_position \<Rightarrow>
                        py_slice orig_text orig_start_position (orig_end_position + 1)))"

text \<open>
  The failure conditions in terms of the texts alone: \<open>position\<close> is no position of
  a character of \<open>text\<close> other than a space.
\<close>

definition no_char_at :: "string \<Rightarrow> int \<Rightarrow> bool" where
  "no_char_at text position \<longleftrightarrow>
     position < 0 \<or> position \<ge> int (length text) \<or> text ! nat position = CHR '' ''"

definition alignment_fails :: "string \<Rightarrow> string \<Rightarrow> string \<Rightarrow> bool" where
  "alignment_fails tok_text pred_text orig_text \<longleftrightarrow>
     \<not> sublist pred_text tok_text \<or>
     length (filter (\<lambda>c. c \<noteq> CHR '' '') orig_text) \<noteq> length (filter (\<lambda>c. c \<noteq> CHR '' '') tok_text) \<or>
     no_char_at tok_text (str_find tok_text pred_text) \<or>
     no_char_at tok_text (str_find tok_text pred_text + int (length pred_text) - 1)"

text \<open>A stand-in tokenizer for examples: split at whitespace, no lower-casing.\<close>

definition whitespace_tokenize :: "bool \<Rightarrow> string \<Rightarrow> string list" where
  "whitespace_tokenize do_lower_case s = str_split s"

subsection \<open>Examples, features and model results\<close>

text \<open>
  The attributes read by the metadata extraction and the prediction writers. Keys of
  the two per-token dictionaries of a feature are Python integers. One record holds
  the attributes of the result tuples of all three readers; \<open>start_sp\<close> is the
  dictionary of sparse score matrices by n-gram order, or \<open>None\<close>.
\<close>

record example =
  ex_qas_id :: string
  ex_doc_words :: "string list"
  ex_doc_idx :: int
  ex_title :: string
  ex_all_answers :: "string list"

record feature =
  f_unique_id :: int
  f_example_index :: int
  f_doc_span_index :: int
  f_paragraph_index :: int
  f_tokens :: "string list"
  f_input_ids :: "int list"
  f_token_to_word_map :: "int \<rightharpoonup> int"
  f_token_is_max_context :: "int \<rightharpoonup> bool"
  f_doc_tokens :: "string list"

record result =
  r_unique_id :: int
  r_loss :: real
  r_start_logits :: "real list"
  r_end_logits :: "real list"
  r_switch :: "real list"
  r_filter_start_logits :: "real list"
  r_filter_end_logits :: "real list"
  r_all_logits :: "real list list"
  r_start :: "real list list"
  r_end :: "real list list"
  r_span_logits :: "real list list"
  r_start_sp :: "(string \<rightharpoonup> real list list) option"

subsection \<open>Prelim predictions of \<open>write_predictions_nq\<close>\<close>

record prelim_prediction =
  pp_paragraph_index :: int
  pp_feature_index :: nat
  pp_start_index :: int
  pp_end_index :: int
  pp_logit :: real
  pp_no_answer_logit :: real

text \<open>\<open>unique_id_to_result\<close>: filled in a loop, a later result overrides an earlier.\<close>

definition unique_id_to_result :: "result list \<Rightarrow> (int \<rightharpoonup> result)" where
  "unique_id_to_result all_results = map_of (rev (map (\<lambda>r. (r_unique_id r, r)) all_results))"

text \<open>
  \<open>example_index_to_features[example_index]\<close>: the features of the example in their
  order in \<open>all_features\<close> (the dictionary is a \<open>defaultdict(list)\<close>).
\<close>

definition example_features :: "feature list \<Rightarrow> nat \<Rightarrow> feature list" where
  "example_features all_features example_index =
     filter (\<lambda>f. f_example_index f = int example_index) all_features"

text \<open>
  The list \<open>scores\<close> of one feature before sorting: for every start \<open>i\<close> the ends
  \<open>i .. i + 9\<close> inside the logits cut to the length of the token list.
\<close>

definition nq_scores :: "feature \<Rightarrow> result \<Rightarrow> ((nat \<times> nat) \<times> real) list" where
  "nq_scores feature result =
     (let start_logits = take (length (f_tokens feature)) (r_start_logits result);
          end_logits = take (length (f_tokens feature)) (r_end_logits result)
      in concat (map (\<lambda>(i, s).
                   map (\<lambda>(j, e). ((i, i + j), s + e)) (enumerate 0 (take 10 (drop i end_logits))))
                 (enumerate 0 start_logits)))"

text \<open>
  \<open>sorted(scores, key=lambda x: x[1], reverse=True)\<close>: descending, equal scores in
  their original order.
\<close>

definition nq_sorted_scores :: "feature \<Rightarrow> result \<Rightarrow> ((nat \<times> nat) \<times> real) list" where
  "nq_sorted_scores feature result = sort_key (\<lambda>x. - snd x) (nq_scores feature result)"

text \<open>
  The loop over the sorted scores of one feature. \<open>prelim_predictions\<close> is the list
  shared by all features of the example. Inside the loop the name \<open>write_predictions\<close>
  denotes the function of that name of the module, which is true as a condition; so
  with \<open>n_paragraphs is None\<close> the loop stops when \<open>n_best_size\<close> predictions are
  collected and the \<open>elif\<close> branch never breaks.
\<close>

fun nq_scan ::
  "feature \<Rightarrow> nat \<Rightarrow> result \<Rightarrow> int \<Rightarrow> bool \<Rightarrow> ((nat \<times> nat) \<times> real) list \<Rightarrow>
   prelim_prediction list \<Rightarrow> py_error + prelim_prediction list" where
  "nq_scan feature feature_index result n_best_size n_paragraphs_is_None [] prelim_predictions =
     Inr prelim_predictions"
| "nq_scan feature feature_index result n_best_size n_paragraphs_is_None
     (((start_index, end_index), score) # rest) prelim_predictions =
     (if start_index \<ge> length (f_tokens feature) then
        nq_scan feature feature_index result n_best_size n_paragraphs_is_None rest prelim_predictions
      else if end_index \<ge> length (f_tokens feature) then
        nq_scan feature feature_index result n_best_size n_paragraphs_is_None rest prelim_predictions
      else if f_token_to_word_map feature (int start_index) = None then
        nq_scan feature feature_index result n_best_size n_paragraphs_is_None rest prelim_predictions
      else if f_token_to_word_map feature (int end_index) = None then
        nq_scan feature feature_index result n_best_size n_paragraphs_is_None rest prelim_predictions
      else if \<not> (case f_token_is_max_context feature (int start_index) of
                    None \<Rightarrow> False | Some b \<Rightarrow> b) then
        nq_scan feature feature_index result n_best_size n_paragraphs_is_None rest prelim_predictions
      else if end_index < start_index then
        nq_scan feature feature_index result n_best_size n_paragraphs_is_None rest prelim_predictions
      else
        bind_err (py_nth (r_switch result) 3) (\<lambda>switch3.
          let prelim_predictions' = prelim_predictions @
                [\<lparr> pp_paragraph_index = f_paragraph_index feature,
                   pp_feature_index = feature_index,
                   pp_start_index = int start_index,
                   pp_end_index = int end_index,
                   pp_logit = - switch3,
                   pp_no_answer_logit = switch3 \<rparr>];
              write_predictions_is_true = True
          in if n_paragraphs_is_None then
               (if write_predictions_is_true \<and> int (length prelim_predictions') \<ge> n_best_size
                then Inr prelim_predictions'
                else if \<not> write_predictions_is_true then Inr prelim_predictions'
                else nq_scan feature feature_index result n_best_size n_paragraphs_is_None
                       rest prelim_predictions')
             else nq_scan feature feature_index result n_best_size n_paragraphs_is_None
                    rest prelim_predictions'))"

text \<open>The body of \<open>for (feature_index, feature) in results\<close> and the loop itself.\<close>

definition nq_feature ::
  "result list \<Rightarrow> int \<Rightarrow> bool \<Rightarrow> nat \<times> feature \<Rightarrow> prelim_prediction list \<Rightarrow>
   py_error + prelim_prediction list" where
  "nq_feature all_results n_best_size n_paragraphs_is_None = (\<lambda>(feature_index, feature) prelim_predictions.
     bind_err (py_lookup (unique_id_to_result all_results) (f_unique_id feature)) (\<lambda>result.
       nq_scan feature feature_index result n_best_size n_paragraphs_is_None
         (nq_sorted_scores feature result) prelim_predictions))"

fun nq_features ::
  "result list \<Rightarrow> int \<Rightarrow> bool \<Rightarrow> (nat \<times> feature) list \<Rightarrow> prelim_prediction list \<Rightarrow>
   py_error + prelim_prediction list" where
  "nq_features all_results n_best_size n_paragraphs_is_None [] prelim_predictions =
     Inr prelim_predictions"
| "nq_features all_results n_best_size n_paragraphs_is_None (x # results) prelim_predictions =
     bind_err (nq_feature all_results n_best_size n_paragraphs_is_None x prelim_predictions)
       (nq_features all_results n_best_size n_paragraphs_is_None results)"

text \<open>
  The sort keys \<open>unique_id_to_result[f[1].unique_id].switch[3]\<close> of the enumerated
  features; computing a key can raise.
\<close>

fun switch3_keys :: "result list \<Rightarrow> (nat \<times> feature) list \<Rightarrow> py_error + real list" where
  "switch3_keys all_results [] = Inr []"
| "switch3_keys all_results ((i, f) # fs) =
     bind_err (py_lookup (unique_id_to_result all_results) (f_unique_id f)) (\<lambda>result.
     bind_err (py_nth (r_switch result) 3) (\<lambda>k.
     bind_err (switch3_keys all_results fs) (\<lambda>ks. Inr (k # ks))))"

text \<open>
  The candidate features of an example: the one with the least no-answer logit when
  \<open>n_paragraphs is None\<close> (ascending stable sort, first element), all of them otherwise.
\<close>

definition nq_candidate_features ::
  "result list \<Rightarrow> bool \<Rightarrow> feature list \<Rightarrow> py_error + (nat \<times> feature) list" where
  "nq_candidate_features all_results n_paragraphs_is_None features =
     (if n_paragraphs_is_None then
        bind_err (switch3_keys all_results (enumerate 0 features)) (\<lambda>keys.
          Inr (take 1 (map snd (sort_key fst (zip keys (enumerate 0 features))))))
      else Inr (enumerate 0 features))"

text \<open>
  The prelim predictions of the example with index \<open>example_index\<close>, before they are
  sorted by logit. (An example without features and with \<open>n_paragraphs is None\<close> gets
  the placeholder prediction and no prelim predictions.)
\<close>

definition nq_prelim_predictions ::
  "feature list \<Rightarrow> result list \<Rightarrow> int \<Rightarrow> bool \<Rightarrow> nat \<Rightarrow> py_error + prelim_prediction list" where
  "nq_prelim_predictions all_features all_results n_best_size n_paragraphs_is_None example_index =
     (let features = example_features all_features example_index in
      if length features = 0 \<and> n_paragraphs_is_None then Inr []
      else
        bind_err (nq_candidate_features all_results n_paragraphs_is_None features) (\<lambda>results.
          nq_features all_results n_best_size n_paragraphs_is_None results []))"

text \<open>
  The choice of the final text in \<open>get_nbest_json\<close>: the two sentinel spans, then the
  span text. \<open>a == b == c\<close> is \<open>a == b and b == c\<close>.
\<close>

datatype text_branch = Yes_branch | No_branch | Span_branch

definition nbest_text_branch :: "prelim_prediction \<Rightarrow> text_branch" where
  "nbest_text_branch pred =
     (if pp_start_index pred = pp_end_index pred \<and> pp_end_index pred = - 1 then Yes_branch
      else if pp_start_index pred = pp_end_index pred \<and> pp_end_index pred = - 2 then No_branch
      else Span_branch)"

text \<open>The \<open>else\<close> branch: the text of the span, projected to the document tokens.\<close>

definition span_final_text ::
  "(bool \<Rightarrow> string \<Rightarrow> string list) \<Rightarrow> bool \<Rightarrow> feature list \<Rightarrow> prelim_prediction \<Rightarrow>
   py_error + string" where
  "span_final_text tokenize do_lower_case features pred =
     bind_err (py_nth features (pp_feature_index pred)) (\<lambda>feature.
       let tok_tokens = py_slice (f_tokens feature) (pp_start_index pred) (pp_end_index pred + 1) in
       bind_err (py_lookup (f_token_to_word_map feature) (pp_start_index pred)) (\<lambda>orig_doc_start.
       bind_err (py_lookup (f_token_to_word_map feature) (pp_end_index pred)) (\<lambda>orig_doc_end.
         let orig_tokens = py_slice (f_doc_tokens feature) orig_doc_start (orig_doc_end + 1);
             tok_text = join_space tok_tokens;
             tok_text = str_replace tok_text '' ##'' '''';
             tok_text = str_replace tok_text ''##'' '''';
             tok_text = str_strip tok_text;
             tok_text = join_space (str_split tok_text);
             orig_text = join_space orig_tokens
         in Inr (nq_get_final_text tokenize tok_text orig_text do_lower_case))))"

definition nbest_final_text ::
  "(bool \<Rightarrow> string \<Rightarrow> string list) \<Rightarrow> bool \<Rightarrow> feature list \<Rightarrow> prelim_prediction \<Rightarrow>
   py_error + string" where
  "nbest_final_text tokenize do_lower_case features pred =
     (case nbest_text_branch pred of
        Yes_branch \<Rightarrow> Inr ''yes''
      | No_branch \<Rightarrow> Inr ''no''
      | Span_branch \<Rightarrow> span_final_text tokenize do_lower_case features pred)"

text \<open>What holds of a prelim prediction appended while the feature \<open>feature\<close> is processed.\<close>

definition prelim_of :: "feature \<Rightarrow> nat \<Rightarrow> result \<Rightarrow> prelim_prediction \<Rightarrow> bool" where
  "prelim_of feature feature_index result p \<longleftrightarrow>
     pp_feature_index p = feature_index \<and>
     pp_paragraph_index p = f_paragraph_index feature \<and>
     0 \<le> pp_start_index p \<and> pp_start_index p \<le> pp_end_index p \<and>
     pp_end_index p < int (length (f_tokens feature)) \<and>
     3 < length (r_switch result) \<and>
     pp_logit p = - (r_switch result ! 3) \<and>
     pp_no_answer_logit p = r_switch result ! 3"

text \<open>A question with one feature of four tokens, for examples.\<close>

definition nq_feature_example :: feature where
  "nq_feature_example =
     \<lparr> f_unique_id = 100, f_example_index = 0, f_doc_span_index = 0, f_paragraph_index = 0,
       f_tokens = [''[CLS]'', ''new'', ''york'', ''[SEP]''],
       f_input_ids = [101, 1, 2, 102],
       f_token_to_word_map = [1 \<mapsto> 0, 2 \<mapsto> 1],
       f_token_is_max_context = [1 \<mapsto> True, 2 \<mapsto> True],
       f_doc_tokens = [''New'', ''York''] \<rparr>"

definition nq_result_example :: result where
  "nq_result_example =
     \<lparr> r_unique_id = 100, r_loss = 0,
       r_start_logits = [0, 2, 1, 0], r_end_logits = [0, 1, 3, 0],
       r_switch = [0, 0, 0, 5],
       r_filter_start_logits = [0, 1, 1, 0], r_filter_end_logits = [0, 1, 1, 0],
       r_all_logits = [[0, 0, 0, 0], [0, 3, 5, 0], [0, 0, 4, 0], [0, 0, 0, 0]],
       r_start = [[0], [1], [2], [3]], r_end = [[4], [5], [6], [7]],
       r_span_logits = [[0, 0, 0, 0], [0, 3, 5, 0], [0, 0, 4, 0], [0, 0, 0, 0]],
       r_start_sp = None \<rparr>"

text \<open>
  A prelim prediction of the example whose features are \<open>features\<close>: it names one of
  them, and was appended while that feature was processed with its result.
\<close>

definition prelim_wf :: "result list \<Rightarrow> feature list \<Rightarrow> prelim_prediction \<Rightarrow> bool" where
  "prelim_wf all_results features p \<longleftrightarrow>
     pp_feature_index p < length features \<and>
     (\<exists>r. unique_id_to_result all_results (f_unique_id (features ! pp_feature_index p)) = Some r \<and>
          prelim_of (features ! pp_feature_index p) (pp_feature_index p) r p)"

definition nq_prelims_example :: "prelim_prediction list" where
  "nq_prelims_example =
     [\<lparr> pp_paragraph_index = 0, pp_feature_index = 0, pp_start_index = 1, pp_end_index = 2,
        pp_logit = - 5, pp_no_answer_logit = 5 \<rparr>,
      \<lparr> pp_paragraph_index = 0, pp_feature_index = 0, pp_start_index = 2, pp_end_index = 2,
        pp_logit = - 5, pp_no_answer_logit = 5 \<rparr>,
      \<lparr> pp_paragraph_index = 0, pp_feature_index = 0, pp_start_index = 1, pp_end_index = 1,
        pp_logit = - 5, pp_no_answer_logit = 5 \<rparr>]"

subsection \<open>Span prediction writer: \<open>get_final_text_\<close> and \<open>write_predictions\<close>\<close>

text \<open>
  \<open>get_final_text_\<close> (here \<open>get_final_text_span\<close>, as a name cannot end with an
  underscore) returns the full document text and the character offsets of the span in
  it. The two dictionary lookups can raise \<open>KeyError\<close>.
\<close>

definition get_final_text_span ::
  "(bool \<Rightarrow> string \<Rightarrow> string list) \<Rightarrow> example \<Rightarrow> feature \<Rightarrow> int \<Rightarrow> int \<Rightarrow> bool \<Rightarrow>
   py_error + (string \<times> int \<times> int)" where
  "get_final_text_span tokenize example feature start_index end_index do_lower_case =
     (let tok_tokens = py_slice (f_tokens feature) start_index (end_index + 1) in
      bind_err (py_lookup (f_token_to_word_map feature) start_index) (\<lambda>orig_doc_start.
      bind_err (py_lookup (f_token_to_word_map feature) end_index) (\<lambda>orig_doc_end.
        let orig_words = py_slice (ex_doc_words example) orig_doc_start (orig_doc_end + 1);
            tok_text = join_space tok_tokens;
            tok_text = str_replace tok_text '' ##'' '''';
            tok_text = str_replace tok_text ''##'' '''';
            tok_text = str_strip tok_text;
            tok_text = join_space (str_split tok_text);
            orig_text = join_space orig_words;
            full_text = join_space (ex_doc_words example);
            (start_pos, end_pos) = get_final_text tokenize tok_text orig_text do_lower_case;
            offset = (\<Sum>word\<leftarrow>py_slice (ex_doc_words example) 0 orig_doc_start.
                         int (length word) + 1)
        in Inr (full_text, offset + start_pos, offset + end_pos))))"

text \<open>The dictionaries \<open>id2feature\<close> and \<open>id2example\<close>, built by comprehensions.\<close>

definition id2feature :: "feature list \<Rightarrow> (int \<rightharpoonup> feature)" where
  "id2feature all_features = map_of (rev (map (\<lambda>f. (f_unique_id f, f)) all_features))"

definition id2example :: "example list \<Rightarrow> feature list \<Rightarrow> py_error + (int \<rightharpoonup> example)" where
  "id2example all_examples all_features =
     (let i2f = id2feature all_features in
      if list_all (\<lambda>f. case i2f (f_unique_id f) of
                          None \<Rightarrow> True
                        | Some g \<Rightarrow> \<not> isl (py_index all_examples (f_example_index g))) all_features
      then Inr (\<lambda>id'. case i2f id' of
                        None \<Rightarrow> None
                      | Some g \<Rightarrow> (case py_index all_examples (f_example_index g) of
                                     Inl e \<Rightarrow> None | Inr ex \<Rightarrow> Some ex))
      else Inl IndexError)"

text \<open>The variables that \<open>write_predictions\<close> updates in its loops.\<close>

record wp_state =
  wp_token_count :: nat
  wp_vec_count :: nat
  wp_predictions :: "string \<rightharpoonup> string"
  wp_scores :: "string \<rightharpoonup> real"
  wp_loss :: "real list"

text \<open>The body of the inner loop for one pair \<open>(start_index, end_index)\<close>.\<close>

definition wp_pair ::
  "(bool \<Rightarrow> string \<Rightarrow> string list) \<Rightarrow> bool \<Rightarrow> real \<Rightarrow> example \<Rightarrow> feature \<Rightarrow> result \<Rightarrow>
   string \<Rightarrow> nat \<Rightarrow> nat \<Rightarrow> wp_state \<Rightarrow> py_error + wp_state" where
  "wp_pair tokenize do_lower_case threshold example feature result id' start_index end_index st =
     (if f_token_to_word_map feature (int start_index) = None then Inr st
      else if f_token_to_word_map feature (int end_index) = None then Inr st
      else if \<not> (case f_token_is_max_context feature (int start_index) of
                    None \<Rightarrow> False | Some b \<Rightarrow> b) then Inr st
      else
        bind_err (py_nth (r_filter_start_logits result) start_index) (\<lambda>filter_start_logit.
        bind_err (py_nth (r_filter_end_logits result) end_index) (\<lambda>filter_end_logit.
          if filter_start_logit < threshold \<or> filter_end_logit < threshold then Inr st
          else
            let st = st \<lparr> wp_vec_count := wp_vec_count st + 1 \<rparr> in
            bind_err (py_nth (r_all_logits result) start_index) (\<lambda>row.
            bind_err (py_nth row end_index) (\<lambda>score.
              if wp_scores st id' = None \<or> score > the (wp_scores st id') then
                bind_err (get_final_text_span tokenize example feature (int start_index)
                            (int end_index) do_lower_case) (\<lambda>(orig_text, start_pos, end_pos).
                  let phrase = py_slice orig_text start_pos end_pos in
                  Inr (st \<lparr> wp_predictions := (wp_predictions st)(id' \<mapsto> phrase),
                            wp_scores := (wp_scores st)(id' \<mapsto> score) \<rparr>))
              else Inr st)))))"

text \<open>
  The body of the loop over \<open>all_results\<close>: the two nested loops over the token
  positions, then the assertion for a question without prediction.
\<close>

definition wp_result ::
  "(bool \<Rightarrow> string \<Rightarrow> string list) \<Rightarrow> bool \<Rightarrow> int \<Rightarrow> real \<Rightarrow> (int \<rightharpoonup> feature) \<Rightarrow>
   (int \<rightharpoonup> example) \<Rightarrow> result \<Rightarrow> wp_state \<Rightarrow> py_error + wp_state" where
  "wp_result tokenize do_lower_case max_answer_length threshold i2f i2e result st =
     (let st = st \<lparr> wp_loss := wp_loss st @ [r_loss result] \<rparr> in
      bind_err (py_lookup i2f (r_unique_id result)) (\<lambda>feature.
      bind_err (py_lookup i2e (r_unique_id result)) (\<lambda>example.
        let id' = ex_qas_id example;
            n = length (f_tokens feature);
            st = st \<lparr> wp_token_count := wp_token_count st + n \<rparr>
        in bind_err
             (fold_err (\<lambda>start_index.
                 fold_err (wp_pair tokenize do_lower_case threshold example feature result id'
                             start_index)
                   [start_index ..< nat (min (int n) (int start_index + max_answer_length - 1))])
               [0 ..< n] st)
             (\<lambda>st. if wp_predictions st id' = None \<and> wp_scores st id' \<noteq> None
                   then Inl AssertionError else Inr st))))"

text \<open>
  What \<open>write_predictions\<close> leaves behind: the two JSON files as dictionaries, and the
  returned mean loss. The log line divides by \<open>token_count\<close> before the files are
  written, the mean loss divides by the number of results.
\<close>

record wp_output =
  out_predictions :: "string \<rightharpoonup> string"
  out_scores :: "string \<rightharpoonup> real"
  out_mean_loss :: real

definition write_predictions ::
  "(bool \<Rightarrow> string \<Rightarrow> string list) \<Rightarrow> example list \<Rightarrow> feature list \<Rightarrow> result list \<Rightarrow>
   int \<Rightarrow> bool \<Rightarrow> real \<Rightarrow> py_error + wp_output" where
  "write_predictions tokenize all_examples all_features all_results max_answer_length
     do_lower_case threshold =
     (let i2f = id2feature all_features in
      bind_err (id2example all_examples all_features) (\<lambda>i2e.
      bind_err (fold_err (wp_result tokenize do_lower_case max_answer_length threshold i2f i2e)
                  all_results
                  \<lparr> wp_token_count = 0, wp_vec_count = 0, wp_predictions = Map.empty,
                    wp_scores = Map.empty, wp_loss = [] \<rparr>) (\<lambda>st.
        if wp_token_count st = 0 then Inl ZeroDivisionError
        else if length (wp_loss st) = 0 then Inl ZeroDivisionError
        else Inr \<lparr> out_predictions = wp_predictions st,
                   out_scores = (\<lambda>k. map_option uminus (wp_scores st k)),
                   out_mean_loss = sum_list (wp_loss st) / real (length (wp_loss st)) \<rparr>)))"

text \<open>
  The specification's vocabulary. A pair of a feature and its result is admissible at
  \<open>(start_index, end_index)\<close> as the claim words it; a candidate of the question \<open>q\<close>
  is an admissible pair of a result whose example has the question id \<open>q\<close>.
\<close>

definition admissible :: "feature \<Rightarrow> result \<Rightarrow> int \<Rightarrow> real \<Rightarrow> nat \<Rightarrow> nat \<Rightarrow> bool" where
  "admissible feature result max_answer_length threshold start_index end_index \<longleftrightarrow>
     start_index \<le> end_index \<and> int end_index < int start_index + max_answer_length - 1 \<and>
     f_token_to_word_map feature (int start_index) \<noteq> None \<and>
     f_token_to_word_map feature (int end_index) \<noteq> None \<and>
     f_token_is_max_context feature (int start_index) = Some True \<and>
     \<not> r_filter_start_logits result ! start_index < threshold \<and>
     \<not> r_filter_end_logits result ! end_index < threshold"

definition is_candidate ::
  "example list \<Rightarrow> feature list \<Rightarrow> result list \<Rightarrow> int \<Rightarrow> real \<Rightarrow>
   string \<Rightarrow> result \<Rightarrow> nat \<Rightarrow> nat \<Rightarrow> bool" where
  "is_candidate all_examples all_features all_results max_answer_length threshold q r s e \<longleftrightarrow>
     r \<in> set all_results \<and>
     (\<exists>feature ex. id2feature all_features (r_unique_id r) = Some feature \<and>
        py_index all_examples (f_example_index feature) = Inr ex \<and>
        ex_qas_id ex = q \<and>
        admissible feature r max_answer_length threshold s e)"

definition candidate_score :: "result \<Rightarrow> nat \<Rightarrow> nat \<Rightarrow> real" where
  "candidate_score r s e = r_all_logits r ! s ! e"

definition candidate_text ::
  "(bool \<Rightarrow> string \<Rightarrow> string list) \<Rightarrow> bool \<Rightarrow> example list \<Rightarrow> feature list \<Rightarrow>
   result \<Rightarrow> nat \<Rightarrow> nat \<Rightarrow> string" where
  "candidate_text tokenize do_lower_case all_examples all_features r s e =
     (case id2feature all_features (r_unique_id r) of
        None \<Rightarrow> []
      | Some feature \<Rightarrow>
         (case py_index all_examples (f_example_index feature) of
            Inl err \<Rightarrow> []
          | Inr ex \<Rightarrow>
             (case get_final_text_span tokenize ex feature (int s) (int e) do_lower_case of
                Inl err \<Rightarrow> []
              | Inr (orig_text, start_pos, end_pos) \<Rightarrow> py_slice orig_text start_pos end_pos)))"

text \<open>
  Inputs as the pipeline produces them: every result belongs to a feature, every
  feature to an example, the keys of a token-to-word map are token positions of the
  feature, and the score arrays of a result cover the tokens of its feature.
\<close>

definition result_ok :: "example list \<Rightarrow> feature list \<Rightarrow> result \<Rightarrow> bool" where
  "result_ok all_examples all_features r \<longleftrightarrow>
     (case id2feature all_features (r_unique_id r) of
        None \<Rightarrow> False
      | Some feature \<Rightarrow>
          (let n = length (f_tokens feature) in
           (\<forall>k. f_token_to_word_map feature k \<noteq> None \<longrightarrow> 0 \<le> k \<and> k < int n) \<and>
           n \<le> length (r_filter_start_logits r) \<and>
           n \<le> length (r_filter_end_logits r) \<and>
           n \<le> length (r_all_logits r) \<and>
           list_all (\<lambda>row. n \<le> length row) (take n (r_all_logits r))))"

definition inputs_ok :: "example list \<Rightarrow> feature list \<Rightarrow> result list \<Rightarrow> bool" where
  "inputs_ok all_examples all_features all_results \<longleftrightarrow>
     list_all (\<lambda>f. \<not> isl (py_index all_examples (f_example_index f))) all_features \<and>
     list_all (result_ok all_examples all_features) all_results"

definition example_doc :: example where
  "example_doc = \<lparr> ex_qas_id = ''q1'', ex_doc_words = [''New'', ''York''], ex_doc_idx = 0,
                   ex_title = ''t'', ex_all_answers = [''New York''] \<rparr>"

text \<open>Notions for the loop invariants of \<open>write_predictions\<close>.\<close>

definition passes :: "feature \<Rightarrow> result \<Rightarrow> real \<Rightarrow> nat \<Rightarrow> nat \<Rightarrow> bool" where
  "passes feature result threshold s e \<longleftrightarrow>
     f_token_to_word_map feature (int s) \<noteq> None \<and>
     f_token_to_word_map feature (int e) \<noteq> None \<and>
     f_token_is_max_context feature (int s) = Some True \<and>
     \<not> r_filter_start_logits result ! s < threshold \<and>
     \<not> r_filter_end_logits result ! e < threshold"

definition span_text ::
  "(bool \<Rightarrow> string \<Rightarrow> string list) \<Rightarrow> bool \<Rightarrow> example \<Rightarrow> feature \<Rightarrow> nat \<Rightarrow> nat \<Rightarrow> string" where
  "span_text tokenize do_lower_case ex feature s e =
     (case get_final_text_span tokenize ex feature (int s) (int e) do_lower_case of
        Inl err \<Rightarrow> []
      | Inr (orig_text, start_pos, end_pos) \<Rightarrow> py_slice orig_text start_pos end_pos)"

definition wp_inv :: "(string \<times> real \<times> string) set \<Rightarrow> wp_state \<Rightarrow> bool" where
  "wp_inv C st \<longleftrightarrow>
     (\<forall>q. (wp_scores st q = None \<longrightarrow>
               wp_predictions st q = None \<and> (\<forall>c\<in>C. fst c \<noteq> q)) \<and>
          (\<forall>v. wp_scores st q = Some v \<longrightarrow>
               (\<exists>t. wp_predictions st q = Some t \<and> (q, v, t) \<in> C) \<and>
               (\<forall>c\<in>C. fst c = q \<longrightarrow> fst (snd c) \<le> v)))"

definition triples_of ::
  "(bool \<Rightarrow> string \<Rightarrow> string list) \<Rightarrow> bool \<Rightarrow> real \<Rightarrow> example \<Rightarrow> feature \<Rightarrow> result \<Rightarrow>
   (nat \<times> nat) set \<Rightarrow> (string \<times> real \<times> string) set" where
  "triples_of tokenize do_lower_case threshold ex feature r P =
     (\<lambda>(s, e). (ex_qas_id ex, r_all_logits r ! s ! e, span_text tokenize do_lower_case ex feature s e))
       ` {(s, e). (s, e) \<in> P \<and> passes feature r threshold s e}"

definition cand_triples ::
  "(bool \<Rightarrow> string \<Rightarrow> string list) \<Rightarrow> bool \<Rightarrow> int \<Rightarrow> real \<Rightarrow> example \<Rightarrow> feature \<Rightarrow> result \<Rightarrow>
   (string \<times> real \<times> string) set" where
  "cand_triples tokenize do_lower_case max_answer_length threshold ex feature r =
     (\<lambda>(s, e). (ex_qas_id ex, r_all_logits r ! s ! e, span_text tokenize do_lower_case ex feature s e))
       ` {(s, e). admissible feature r max_answer_length threshold s e}"

definition result_cands ::
  "(bool \<Rightarrow> string \<Rightarrow> string list) \<Rightarrow> bool \<Rightarrow> example list \<Rightarrow> feature list \<Rightarrow> int \<Rightarrow> real \<Rightarrow>
   result \<Rightarrow> (string \<times> real \<times> string) set" where
  "result_cands tokenize do_lower_case all_examples all_features max_answer_length threshold r =
     (case id2feature all_features (r_unique_id r) of
        None \<Rightarrow> {}
      | Some feature \<Rightarrow>
         (case py_index all_examples (f_example_index feature) of
            Inl err \<Rightarrow> {}
          | Inr ex \<Rightarrow> cand_triples tokenize do_lower_case max_answer_length threshold ex feature r))"

definition wp_output_example :: wp_output where
  "wp_output_example =
     \<lparr> out_predictions = [''q1'' \<mapsto> ''New York''],
       out_scores = (\<lambda>k. map_option uminus ([''q1'' \<mapsto> 5] k)),
       out_mean_loss = 0 \<rparr>"

text \<open>
  The keys of the token-to-word maps of the features that the results name are token
  positions of these features.
\<close>

definition keys_ok :: "feature list \<Rightarrow> result list \<Rightarrow> bool" where
  "keys_ok all_features all_results \<longleftrightarrow>
     (\<forall>r\<in>set all_results. \<forall>f. id2feature all_features (r_unique_id r) = Some f \<longrightarrow>
        (\<forall>k. f_token_to_word_map f k \<noteq> None \<longrightarrow> 0 \<le> k \<and> k < int (length (f_tokens f))))"

text \<open>
  The output records for the question \<open>q\<close> an admissible candidate of highest score:
  its text as the prediction, its negated score in the score file.
\<close>

definition best_recorded ::
  "(bool \<Rightarrow> string \<Rightarrow> string list) \<Rightarrow> bool \<Rightarrow> example list \<Rightarrow> feature list \<Rightarrow> result list \<Rightarrow>
   int \<Rightarrow> real \<Rightarrow> wp_output \<Rightarrow> string \<Rightarrow> bool" where
  "best_recorded tokenize do_lower_case all_examples all_features all_results
     max_answer_length threshold out q \<longleftrightarrow>
     (\<exists>r s e.
        is_candidate all_examples all_features all_results max_answer_length threshold q r s e \<and>
        (\<forall>r' s' e'.
           is_candidate all_examples all_features all_results max_answer_length threshold
             q r' s' e' \<longrightarrow> candidate_score r' s' e' \<le> candidate_score r s e) \<and>
        out_predictions out q
          = Some (candidate_text tokenize do_lower_case all_examples all_features r s e) \<and>
        out_scores out q = Some (- candidate_score r s e))"

subsection \<open>Metadata extraction: \<open>get_metadata\<close> and \<open>pool_func\<close>\<close>

text \<open>
  Arrays are lists of rows, so the length of the rows of an array without rows is not
  known to the model: \<open>np.concatenate\<close> fails here only on an empty list of arrays
  (NumPy also refuses arrays whose rows differ in length), and the number of columns of
  a matrix is the length of its first row.
\<close>

definition np_concatenate :: "'a list list \<Rightarrow> py_error + 'a list" where
  "np_concatenate arrays = (if arrays = [] then Inl ValueError else Inr (concat arrays))"

text \<open>\<open>xs[1:len(feature.tokens) - 1]\<close>, and the same on the rows and columns of a matrix.\<close>

definition interior :: "'a list \<Rightarrow> feature \<Rightarrow> 'a list" where
  "interior xs feature = py_slice xs 1 (int (length (f_tokens feature)) - 1)"

definition interior2 :: "'a list list \<Rightarrow> feature \<Rightarrow> 'a list list" where
  "interior2 m feature = map (\<lambda>row. interior row feature) (interior m feature)"

text \<open>\<open>a[i] = v\<close>, \<open>a[i, j]\<close> and \<open>a[i, j] = v\<close> for positions that are not negative.\<close>

definition set_item :: "'a list \<Rightarrow> nat \<Rightarrow> 'a \<Rightarrow> py_error + 'a list" where
  "set_item a i v = (if i < length a then Inr (a[i := v]) else Inl IndexError)"

definition get_cell :: "'a list list \<Rightarrow> nat \<Rightarrow> nat \<Rightarrow> py_error + 'a" where
  "get_cell a i j = bind_err (py_nth a i) (\<lambda>row. py_nth row j)"

definition set_cell :: "'a list list \<Rightarrow> nat \<Rightarrow> nat \<Rightarrow> 'a \<Rightarrow> py_error + 'a list list" where
  "set_cell a i j v =
     bind_err (py_nth a i) (\<lambda>row. bind_err (set_item row j v) (\<lambda>row'. set_item a i row'))"

text \<open>
  The sparse maps (the block under \<open>if results[0].start_sp is not None\<close>). The list
  comprehension for one n-gram order:
\<close>

fun sparse_features_of ::
  "string \<Rightarrow> (feature \<times> result) list \<Rightarrow> py_error + real list list list" where
  "sparse_features_of key [] = Inr []"
| "sparse_features_of key ((feature, result) # rest) =
     (case r_start_sp result of
        None \<Rightarrow> Inl TypeError
      | Some start_sp \<Rightarrow>
          bind_err (py_lookup start_sp key) (\<lambda>m.
          bind_err (sparse_features_of key rest) (\<lambda>ms. Inr (interior2 m feature # ms))))"

definition sparse_features_opt ::
  "string \<Rightarrow> (string \<rightharpoonup> real list list) \<Rightarrow> (feature \<times> result) list \<Rightarrow>
   py_error + real list list list option" where
  "sparse_features_opt key start_sp0 pairs =
     (if start_sp0 key \<noteq> None
      then bind_err (sparse_features_of key pairs) (\<lambda>ms. Inr (Some ms))
      else Inr None)"

definition mat_shape :: "'a list list \<Rightarrow> nat \<times> nat" where
  "mat_shape m = (length m, case m of [] \<Rightarrow> 0 | row # _ \<Rightarrow> length row)"

text \<open>
  \<open>target[curr:curr + h, :w] += block\<close> for a block of shape \<open>(h, w)\<close> and a target with
  \<open>width\<close> columns: the slice is clipped to the target, and the block must have the
  shape of the slice or be stretched along an axis where it has length one.
\<close>

definition add_block ::
  "real list list \<Rightarrow> nat \<Rightarrow> nat \<Rightarrow> real list list \<Rightarrow> py_error + real list list" where
  "add_block target width curr_size block =
     (let (h, w) = mat_shape block;
          h' = min (curr_size + h) (length target) - min curr_size (length target);
          w' = min w width
      in if (h = h' \<or> h = 1) \<and> (w = w' \<or> w = 1) then
           Inr (map (\<lambda>(i, row).
                  if curr_size \<le> i \<and> i < curr_size + h' then
                    map (\<lambda>(j, v). if j < w'
                           then v + block ! (if h = 1 then 0 else i - curr_size) ! (if w = 1 then 0 else j)
                           else v) (enumerate 0 row)
                  else row) (enumerate 0 target))
         else Inl ValueError)"

text \<open>The same for the bigram and trigram maps, which may be absent, after the assertion.\<close>

definition add_block_opt ::
  "real list list option \<Rightarrow> nat \<Rightarrow> nat \<Rightarrow> real list list list option \<Rightarrow> nat \<Rightarrow>
   real list list \<Rightarrow> py_error + real list list option" where
  "add_block_opt target width curr_size features_opt sidx sparse_feature =
     (case features_opt of
        None \<Rightarrow> Inr target
      | Some fs \<Rightarrow>
          bind_err (py_nth fs sidx) (\<lambda>block.
            if mat_shape block \<noteq> mat_shape sparse_feature then Inl AssertionError
            else (case target of
                    None \<Rightarrow> Inl TypeError
                  | Some t \<Rightarrow> bind_err (add_block t width curr_size block) (\<lambda>t'. Inr (Some t')))))"

definition sparse_block ::
  "feature list \<Rightarrow> result list \<Rightarrow> nat \<Rightarrow> (string \<rightharpoonup> real list list) \<Rightarrow>
   py_error + (int list \<times> real list list \<times> real list list option \<times> real list list option
               \<times> nat list)" where
  "sparse_block features results start_rows start_sp0 =
     bind_err (np_concatenate (map (\<lambda>f. interior (f_input_ids f) f) features)) (\<lambda>input_ids.
     bind_err (sparse_features_opt ''1'' start_sp0 (zip features results)) (\<lambda>sparse_features.
     bind_err (sparse_features_opt ''2'' start_sp0 (zip features results)) (\<lambda>sparse_bi_features.
     bind_err (sparse_features_opt ''3'' start_sp0 (zip features results)) (\<lambda>sparse_tri_features.
       case sparse_features of
         None \<Rightarrow> Inl TypeError
       | Some sfs \<Rightarrow>
          if sfs = [] then Inl ValueError
          else
            let map_size = fold max (map length sfs) 0;
                zeros = replicate (length input_ids) (replicate map_size 0);
                sparse_map = zeros;
                sparse_bi_map = (if sparse_bi_features \<noteq> None then Some zeros else None);
                sparse_tri_map = (if sparse_tri_features \<noteq> None then Some zeros else None)
            in bind_err
                 (fold_err (\<lambda>(sidx, sparse_feature) (curr_size, sp, bi, tri, len_per_para).
                      bind_err (add_block sp map_size curr_size sparse_feature) (\<lambda>sp'.
                      bind_err (add_block_opt bi map_size curr_size sparse_bi_features sidx
                                  sparse_feature) (\<lambda>bi'.
                      bind_err (add_block_opt tri map_size curr_size sparse_tri_features sidx
                                  sparse_feature) (\<lambda>tri'.
                        Inr (curr_size + length sparse_feature, sp', bi', tri',
                             len_per_para @ [length sparse_feature])))))
                    (enumerate 0 sfs) (0, sparse_map, sparse_bi_map, sparse_tri_map, []))
                 (\<lambda>(curr_size, sp, bi, tri, len_per_para).
                    if length input_ids = start_rows \<and> curr_size = length sp
                    then Inr (input_ids, sp, bi, tri, len_per_para)
                    else Inl AssertionError)))))"

text \<open>
  The span table: the state of the three nested loops is \<open>(span_logits, start2end, idx)\<close>.
\<close>

definition span_table_cell ::
  "result \<Rightarrow> nat \<Rightarrow> nat \<Rightarrow> real list list \<times> int list list \<times> nat \<Rightarrow>
   py_error + real list list \<times> int list list \<times> nat" where
  "span_table_cell result i j = (\<lambda>(span_logits, start2end, idx).
     bind_err (get_cell (r_span_logits result) i j) (\<lambda>v.
     bind_err (set_cell span_logits idx (j - i) v) (\<lambda>span_logits'.
     bind_err (set_cell start2end idx (j - i) (int idx + int j - int i)) (\<lambda>start2end'.
       Inr (span_logits', start2end', idx)))))"

definition span_table_feature ::
  "int \<Rightarrow> feature \<times> result \<Rightarrow> real list list \<times> int list list \<times> nat \<Rightarrow>
   py_error + real list list \<times> int list list \<times> nat" where
  "span_table_feature max_answer_length = (\<lambda>(feature, result).
     fold_err (\<lambda>i st.
         bind_err (fold_err (span_table_cell result i)
                     [i ..< nat (min (int i + max_answer_length)
                                     (int (length (f_tokens feature)) - 1))] st)
           (\<lambda>(span_logits, start2end, idx). Inr (span_logits, start2end, idx + 1)))
       [1 ..< length (f_tokens feature) - 1])"

text \<open>
  The character offsets: the state of the loop over the features is
  \<open>(full_text, prev_example, word_pos, word2char_start, word2char_end)\<close>.
\<close>

definition word2char_token ::
  "(bool \<Rightarrow> string \<Rightarrow> string list) \<Rightarrow> bool \<Rightarrow> example \<Rightarrow> feature \<Rightarrow> string \<Rightarrow> nat \<Rightarrow>
   nat \<times> int list \<times> int list \<Rightarrow> py_error + nat \<times> int list \<times> int list" where
  "word2char_token tokenize do_lower_case example feature full_text i =
     (\<lambda>(word_pos, word2char_start, word2char_end).
        bind_err (get_final_text_span tokenize example feature (int i)
                    (min (int (length (f_tokens feature)) - 2) (int i + 1)) do_lower_case)
          (\<lambda>(t1, start_pos, e1).
        bind_err (get_final_text_span tokenize example feature (max 1 (int i - 1)) (int i)
                    do_lower_case)
          (\<lambda>(t2, s2, end_pos).
        bind_err (set_item word2char_start word_pos (start_pos + int (length full_text)))
          (\<lambda>word2char_start'.
        bind_err (set_item word2char_end word_pos (end_pos + int (length full_text)))
          (\<lambda>word2char_end'.
             Inr (word_pos + 1, word2char_start', word2char_end'))))))"

definition word2char_feature ::
  "(bool \<Rightarrow> string \<Rightarrow> string list) \<Rightarrow> bool \<Rightarrow> (int \<rightharpoonup> example) \<Rightarrow> feature \<Rightarrow>
   string \<times> example option \<times> nat \<times> int list \<times> int list \<Rightarrow>
   py_error + string \<times> example option \<times> nat \<times> int list \<times> int list" where
  "word2char_feature tokenize do_lower_case id2ex feature =
     (\<lambda>(full_text, prev_example, word_pos, word2char_start, word2char_end).
        bind_err (py_lookup id2ex (f_unique_id feature)) (\<lambda>example.
          let full_text' = (case prev_example of
                              None \<Rightarrow> full_text
                            | Some prev \<Rightarrow>
                                if f_doc_span_index feature = 0
                                then full_text @ join_space (ex_doc_words prev) @ '' [PAR] ''
                                else full_text)
          in bind_err (fold_err (word2char_token tokenize do_lower_case example feature full_text')
                         [1 ..< length (f_tokens feature) - 1]
                         (word_pos, word2char_start, word2char_end))
               (\<lambda>(word_pos', ws, we). Inr (full_text', Some example, word_pos', ws, we))))"

definition get_metadata ::
  "(bool \<Rightarrow> string \<Rightarrow> string list) \<Rightarrow> (int \<rightharpoonup> example) \<Rightarrow> feature list \<Rightarrow> result list \<Rightarrow>
   int \<Rightarrow> bool \<Rightarrow> py_error + metadata" where
  "get_metadata tokenize id2ex features results max_answer_length do_lower_case =
     (let pairs = zip features results in
      bind_err (np_concatenate (map (\<lambda>(feature, result). interior (r_start result) feature) pairs))
        (\<lambda>start.
      bind_err (np_concatenate (map (\<lambda>(feature, result). interior (r_end result) feature) pairs))
        (\<lambda>end.
      bind_err (py_nth results 0) (\<lambda>result0.
      bind_err (case r_start_sp result0 of
                  None \<Rightarrow> Inr (None, None, None, None, [])
                | Some start_sp0 \<Rightarrow>
                    bind_err (sparse_block features results (length start) start_sp0)
                      (\<lambda>(input_ids, sp, bi, tri, len_per_para).
                         Inr (Some input_ids, Some sp, bi, tri, len_per_para)))
        (\<lambda>(input_ids, sparse_map, sparse_bi_map, sparse_tri_map, len_per_para).
      bind_err (np_concatenate
                  (map (\<lambda>(feature, result). interior (r_filter_start_logits result) feature) pairs))
        (\<lambda>fs.
      bind_err (np_concatenate
                  (map (\<lambda>(feature, result). interior (r_filter_end_logits result) feature) pairs))
        (\<lambda>fe.
      if max_answer_length < 0 then Inl ValueError
      else
        bind_err (fold_err (span_table_feature max_answer_length) pairs
                    (replicate (length start) (replicate (nat max_answer_length) 0),
                     replicate (length start) (replicate (nat max_answer_length) (- 1)),
                     0))
          (\<lambda>(span_logits, start2end, idx).
        bind_err (fold_err (word2char_feature tokenize do_lower_case id2ex) features
                    ([], None, 0, replicate (length start) 0, replicate (length start) 0))
          (\<lambda>(full_text, prev_example, word_pos, word2char_start, word2char_end).
             case prev_example of
               None \<Rightarrow> Inl AttributeError
             | Some prev \<Rightarrow>
                 Inr \<lparr> md_did = ex_doc_idx prev,
                       md_context = full_text @ join_space (ex_doc_words prev),
                       md_title = ex_title prev,
                       md_start = start, md_end = end,
                       md_span_logits = span_logits, md_start2end = start2end,
                       md_word2char_start = word2char_start,
                       md_word2char_end = word2char_end,
                       md_filter_start = fs, md_filter_end = fe,
                       md_input_ids = input_ids,
                       md_sparse = sparse_map, md_sparse_bi = sparse_bi_map,
                       md_sparse_tri = sparse_tri_map,
                       md_len_per_para = len_per_para,
                       md_f2o_start = None, md_f2o_end = None \<rparr>)))))))))"

text \<open>\<open>pool_func\<close>: extraction, then filtering at the threshold.\<close>

definition pool_func ::
  "(bool \<Rightarrow> string \<Rightarrow> string list) \<Rightarrow> (int \<rightharpoonup> example) \<Rightarrow> feature list \<Rightarrow> result list \<Rightarrow>
   int \<Rightarrow> bool \<Rightarrow> real \<Rightarrow> py_error + metadata" where
  "pool_func tokenize id2ex features results max_answer_length do_lower_case threshold =
     bind_err (get_metadata tokenize id2ex features results max_answer_length do_lower_case)
       (\<lambda>metadata. filter_metadata metadata threshold)"

text \<open>The record extracted from the example feature, whose result has no sparse scores.\<close>

definition md_extracted_example :: metadata where
  "md_extracted_example =
     \<lparr> md_did = 0, md_context = ''New York'', md_title = ''t'',
       md_start = [[1], [2]], md_end = [[5], [6]],
       md_span_logits = [[3, 5], [4, 0]],
       md_start2end = [[0, 1], [1, - 1]],
       md_word2char_start = [0, 4], md_word2char_end = [3, 8],
       md_filter_start = [1, 1], md_filter_end = [1, 1],
       md_input_ids = None,
       md_sparse = None, md_sparse_bi = None, md_sparse_tri = None,
       md_len_per_para = [],
       md_f2o_start = None, md_f2o_end = None \<rparr>"

section \<open>Verification\<close>

subsection \<open>Maximum-context window\<close>










subsection \<open>Answer span refinement\<close>

lemma improve_inner_find:
  "improve_inner toks ans s ends =
     map_option (Pair s) (find (\<lambda>b. join_space (py_slice toks s (b + 1)) = ans) ends)"
  by (induction ends) (auto simp: Let_def)

lemma rev_upto_nth: "j < length [s..e] \<Longrightarrow> rev [s..e] ! j = e - int j"
  by (simp add: rev_nth) 

lemma improve_inner_None:
  "improve_inner toks ans s (rev [s..e]) = None \<longleftrightarrow>
     (\<forall>b. s \<le> b \<and> b \<le> e \<longrightarrow> join_space (py_slice toks s (b + 1)) \<noteq> ans)"
  by (auto simp: improve_inner_find find_None_iff)

lemma improve_inner_Some:
  assumes "improve_inner toks ans s (rev [s..e]) = Some r"
  shows "fst r = s \<and> s \<le> snd r \<and> snd r \<le> e \<and>
         join_space (py_slice toks s (snd r + 1)) = ans \<and>
         (\<forall>b. snd r < b \<and> b \<le> e \<longrightarrow> join_space (py_slice toks s (b + 1)) \<noteq> ans)"
proof -
  let ?P = "\<lambda>b. join_space (py_slice toks s (b + 1)) = ans"
  from assms obtain x where x: "find ?P (rev [s..e]) = Some x" "r = (s, x)"
    by (auto simp: improve_inner_find)
  then obtain i where i: "i < length (rev [s..e])" "?P (rev [s..e] ! i)" "x = rev [s..e] ! i"
      "\<forall>j<i. \<not> ?P (rev [s..e] ! j)"
    unfolding find_Some_iff by blast
  have xi: "x = e - int i" using i(1,3) by (simp add: rev_nth)
  have len: "int i < e - s + 1" using i(1) by simp
  have "\<forall>b. x < b \<and> b \<le> e \<longrightarrow> \<not> ?P b"
  proof (intro allI impI)
    fix b assume b: "x < b \<and> b \<le> e"
    define j where "j = nat (e - b)"
    have "j < i" using b xi unfolding j_def by linarith
    moreover have "rev [s..e] ! j = b" using b xi len \<open>j < i\<close> by (simp add: rev_nth j_def)
    ultimately show "\<not> ?P b" using i(4) by metis
  qed
  then show ?thesis using x(2) i(2) xi len i(3) by auto
qed

lemma improve_outer_None:
  "improve_outer toks ans e starts = None \<longleftrightarrow>
     (\<forall>a\<in>set starts. \<forall>b. a \<le> b \<and> b \<le> e \<longrightarrow> join_space (py_slice toks a (b + 1)) \<noteq> ans)"
proof (induction starts)
  case Nil
  show ?case by simp
next
  case (Cons a starts)
  show ?case
  proof (cases "improve_inner toks ans a (rev [a..e])")
    case None
    then have "\<forall>b. a \<le> b \<and> b \<le> e \<longrightarrow> join_space (py_slice toks a (b + 1)) \<noteq> ans"
      by (simp add: improve_inner_None)
    then show ?thesis using Cons None by simp
  next
    case (Some r)
    from improve_inner_Some [OF Some]
    have "\<exists>b. a \<le> b \<and> b \<le> e \<and> join_space (py_slice toks a (b + 1)) = ans" by blast
    then show ?thesis using Some by auto
  qed
qed

lemma improve_outer_Some:
  "improve_outer toks ans e [s..s'] = Some r \<Longrightarrow>
     s \<le> fst r \<and> fst r \<le> s' \<and> fst r \<le> snd r \<and> snd r \<le> e \<and>
     join_space (py_slice toks (fst r) (snd r + 1)) = ans \<and>
     (\<forall>a b. s \<le> a \<and> a < fst r \<and> a \<le> b \<and> b \<le> e \<longrightarrow> join_space (py_slice toks a (b + 1)) \<noteq> ans) \<and>
     (\<forall>b. snd r < b \<and> b \<le> e \<longrightarrow> join_space (py_slice toks (fst r) (b + 1)) \<noteq> ans)"
proof (induction "nat (s' - s + 1)" arbitrary: s)
  case 0
  then have "[s..s'] = []" by simp
  with 0 show ?case by simp
next
  case (Suc n)
  then have le: "s \<le> s'" by simp
  then have up: "[s..s'] = s # [s+1..s']" by (simp add: upto_rec1)
  show ?case
  proof (cases "improve_inner toks ans s (rev [s..e])")
    case None
    then have rest: "improve_outer toks ans e [s+1..s'] = Some r"
      using Suc.prems up by simp
    have "n = nat (s' - (s + 1) + 1)" using Suc.hyps(2) by simp
    from Suc.hyps(1) [OF this rest]
    have IH: "s + 1 \<le> fst r \<and> fst r \<le> s' \<and> fst r \<le> snd r \<and> snd r \<le> e \<and>
     join_space (py_slice toks (fst r) (snd r + 1)) = ans \<and>
     (\<forall>a b. s + 1 \<le> a \<and> a < fst r \<and> a \<le> b \<and> b \<le> e \<longrightarrow> join_space (py_slice toks a (b + 1)) \<noteq> ans) \<and>
     (\<forall>b. snd r < b \<and> b \<le> e \<longrightarrow> join_space (py_slice toks (fst r) (b + 1)) \<noteq> ans)" .
    have s: "\<forall>b. s \<le> b \<and> b \<le> e \<longrightarrow> join_space (py_slice toks s (b + 1)) \<noteq> ans"
      using None by (simp add: improve_inner_None)
    have "\<forall>a b. s \<le> a \<and> a < fst r \<and> a \<le> b \<and> b \<le> e \<longrightarrow> join_space (py_slice toks a (b + 1)) \<noteq> ans"
    proof (intro allI impI)
      fix a b assume ab: "s \<le> a \<and> a < fst r \<and> a \<le> b \<and> b \<le> e"
      show "join_space (py_slice toks a (b + 1)) \<noteq> ans"
      proof (cases "a = s")
        case True then show ?thesis using s ab by blast
      next
        case False
        then have "s + 1 \<le> a" using ab by simp
        then show ?thesis using IH ab by blast
      qed
    qed
    then show ?thesis using IH by simp
  next
    case (Some r')
    then have "r = r'" using Suc.prems up by simp
    then show ?thesis using improve_inner_Some [OF Some] le by auto
  qed
qed

lemma improve_answer_span_spec:
  "(let r = improve_answer_span doc_tokens input_start input_end tokenizer orig_answer_text;
        answer = join_space (tokenizer orig_answer_text)
    in if \<exists>a b. span_matches doc_tokens answer input_start input_end a b
       then span_matches doc_tokens answer input_start input_end (fst r) (snd r) \<and>
            (\<forall>a b. span_matches doc_tokens answer input_start input_end a b \<longrightarrow>
                   fst r \<le> a \<and> (a = fst r \<longrightarrow> b \<le> snd r))
       else r = (input_start, input_end))"
proof -
  let ?ans = "join_space (tokenizer orig_answer_text)"
  let ?o = "improve_outer doc_tokens ?ans input_end [input_start..input_end]"
  show ?thesis
  proof (cases ?o)
    case None
    then have "\<not> (\<exists>a b. span_matches doc_tokens ?ans input_start input_end a b)"
      by (auto simp: improve_outer_None span_matches_def)
    moreover have "improve_answer_span doc_tokens input_start input_end tokenizer orig_answer_text
                     = (input_start, input_end)"
      using None by (simp add: improve_answer_span_def)
    ultimately show ?thesis by (simp add: Let_def)
  next
    case (Some r)
    note S = improve_outer_Some [OF Some]
    have r: "improve_answer_span doc_tokens input_start input_end tokenizer orig_answer_text = r"
      using Some by (simp add: improve_answer_span_def)
    have m: "span_matches doc_tokens ?ans input_start input_end (fst r) (snd r)"
      using S by (simp add: span_matches_def)
    have "\<forall>a b. span_matches doc_tokens ?ans input_start input_end a b \<longrightarrow>
                   fst r \<le> a \<and> (a = fst r \<longrightarrow> b \<le> snd r)"
    proof (intro allI impI)
      fix a b assume ab: "span_matches doc_tokens ?ans input_start input_end a b"
      have 1: "fst r \<le> a" using S ab unfolding span_matches_def
        by (meson not_le)
      have 2: "a = fst r \<longrightarrow> b \<le> snd r" using S ab unfolding span_matches_def
        by (meson not_le)
      show "fst r \<le> a \<and> (a = fst r \<longrightarrow> b \<le> snd r)" using 1 2 by simp
    qed
    then show ?thesis using m r by (auto simp: Let_def)
  qed
qed


text \<open>
  Claim C5. For all document tokens, indices and gold answers, \<open>_improve_answer_span\<close>
  returns the matching sub-span of \<open>[input_start, input_end]\<close> with the leftmost
  start and, for that start, the largest end, whenever some sub-span's space-joined
  tokens equal the space-joined tokenized answer; otherwise it returns
  \<open>(input_start, input_end)\<close>. For the tokens \<open>( 1895 - 1943 ) .\<close>, the span
  \<open>[0, 5]\<close> and the answer \<open>1895\<close> (tokenized to itself) the result is \<open>(1, 1)\<close>.
\<close>

theorem improve_answer_span_leftmost_longest:
  "(let r = improve_answer_span doc_tokens input_start input_end tokenizer orig_answer_text;
        answer = join_space (tokenizer orig_answer_text)
    in if \<exists>a b. span_matches doc_tokens answer input_start input_end a b
       then span_matches doc_tokens answer input_start input_end (fst r) (snd r) \<and>
            (\<forall>a b. span_matches doc_tokens answer input_start input_end a b \<longrightarrow>
                   fst r \<le> a \<and> (a = fst r \<longrightarrow> b \<le> snd r))
       else r = (input_start, input_end)) \<and>
   improve_answer_span tokens_1895 0 5 (\<lambda>t. [t]) ''1895'' = (1, 1)"
proof -
  have "improve_answer_span tokens_1895 0 5 (\<lambda>t. [t]) ''1895'' = (1, 1)"
    by (simp add: improve_answer_span_def tokens_1895_def upto_rec1 py_slice_def)
  then show ?thesis
    using improve_answer_span_spec [of doc_tokens input_start input_end tokenizer orig_answer_text]
    by blast
qed

theorem improve_answer_span_leftmost_longest_witness:
  "(\<exists>a b. span_matches tokens_1895 ''1943'' 0 5 a b) \<and>
   span_matches tokens_1895 ''1943'' 0 5
     (fst (improve_answer_span tokens_1895 0 5 (\<lambda>t. [t]) ''1943''))
     (snd (improve_answer_span tokens_1895 0 5 (\<lambda>t. [t]) ''1943'')) \<and>
   span_matches tokens_1895 ''1943'' 0 5 3 3 \<and>
   fst (improve_answer_span tokens_1895 0 5 (\<lambda>t. [t]) ''1943'') \<le> 3"
proof -
  have m: "span_matches tokens_1895 ''1943'' 0 5 3 3"
    by (simp add: span_matches_def tokens_1895_def py_slice_def)
  then have ex: "\<exists>a b. span_matches tokens_1895 (join_space [''1943'']) 0 5 a b"
    by auto
  show ?thesis
    using improve_answer_span_leftmost_longest [of tokens_1895 0 5 "\<lambda>t. [t]" "''1943''"] ex m
    by (simp add: Let_def)
qed

subsection \<open>Quantisation round trip\<close>







subsection \<open>Metadata filtering\<close>

lemma bind_err_Inr:
  "bind_err r f = Inr v \<longleftrightarrow> (\<exists>u. r = Inr u \<and> f u = Inr v)"
  by (cases r) (auto simp: bind_err_def)

lemma take_rows_Inr:
  "take_rows a idxs = Inr r \<longleftrightarrow> (\<forall>i\<in>set idxs. i < length a) \<and> r = map (\<lambda>i. a ! i) idxs"
  by (auto simp: take_rows_def list_all_iff)

lemma np_where_gt_set:
  "set (np_where_gt xs t) = {i. i < length xs \<and> xs ! i > t}"
  by (auto simp: np_where_gt_def)


lemma np_where_gt_sorted: "sorted (np_where_gt xs t)"
  by (simp add: np_where_gt_def sorted_wrt_filter)




text \<open>What a successful run returns, field by field.\<close>

lemma filter_metadata_Inr:
  assumes "filter_metadata m threshold = Inr m'"
  shows "\<exists>sp. m' = m
           \<lparr> md_start := map (\<lambda>i. md_start m ! i) (np_where_gt (md_filter_start m) threshold),
             md_end := map (\<lambda>i. md_end m ! i) (np_where_gt (md_filter_end m) threshold),
             md_sparse := Some (map (\<lambda>i. sp ! i) (np_where_gt (md_filter_start m) threshold)),
             md_sparse_bi := map_option (\<lambda>rows. map (\<lambda>i. rows ! i)
                                (np_where_gt (md_filter_start m) threshold)) (md_sparse_bi m),
             md_sparse_tri := map_option (\<lambda>rows. map (\<lambda>i. rows ! i)
                                (np_where_gt (md_filter_start m) threshold)) (md_sparse_tri m),
             md_f2o_start := Some (np_where_gt (md_filter_start m) threshold),
             md_f2o_end := Some (np_where_gt (md_filter_end m) threshold),
             md_span_logits := map (\<lambda>i. md_span_logits m ! i)
                                (np_where_gt (md_filter_start m) threshold),
             md_start2end := remap_start2end
                                (end_long2short (np_where_gt (md_filter_end m) threshold))
                                (map (\<lambda>i. md_start2end m ! i)
                                   (np_where_gt (md_filter_start m) threshold)) \<rparr>
         \<and> md_sparse m = Some sp
         \<and> (\<forall>i\<in>set (np_where_gt (md_filter_end m) threshold). i < length (md_end m))
         \<and> (\<forall>i\<in>set (np_where_gt (md_filter_start m) threshold). i < length (md_start2end m))"
  using assms
  unfolding filter_metadata_def Let_def bind_err_Inr take_rows_Inr take_rows_opt_def
  by (auto split: option.splits simp: bind_err_Inr take_rows_Inr)

lemma np_where_gt_nth_less:
  "p < length (np_where_gt xs t) \<Longrightarrow> np_where_gt xs t ! p < length xs"
  using np_where_gt_set [of xs t] nth_mem by blast




lemma example_filtered:
  "filter_metadata md_example (1 / 2) = Inr md_example_filtered"
  by (simp add: filter_metadata_def md_example_def md_example_filtered_def np_where_gt_def
                take_rows_def take_rows_opt_def bind_err_def end_long2short_def
                remap_start2end_def upt_rec enumerate_eq_zip Let_def)



text \<open>
  Claim C8. \<open>filter_metadata\<close> changes only \<open>start\<close>, \<open>end\<close>, \<open>sparse\<close>, \<open>sparse_bi\<close>,
  \<open>sparse_tri\<close>, \<open>span_logits\<close> and \<open>start2end\<close> and adds \<open>f2o_start\<close> and \<open>f2o_end\<close>:
  putting the old values of these nine fields back gives the record it was applied to.
  In particular \<open>word2char_start\<close> and \<open>word2char_end\<close> keep their unfiltered length
  and values, and \<open>did\<close>, \<open>context\<close>, \<open>title\<close>, \<open>filter_start\<close>, \<open>filter_end\<close>,
  \<open>input_ids\<close> and \<open>len_per_para\<close> are as before.
\<close>

theorem filter_metadata_frame:
  assumes "filter_metadata m threshold = Inr m'"
  shows "m' \<lparr> md_start := md_start m, md_end := md_end m, md_sparse := md_sparse m,
              md_sparse_bi := md_sparse_bi m, md_sparse_tri := md_sparse_tri m,
              md_span_logits := md_span_logits m, md_start2end := md_start2end m,
              md_f2o_start := md_f2o_start m, md_f2o_end := md_f2o_end m \<rparr> = m \<and>
         md_f2o_start m' = Some (np_where_gt (md_filter_start m) threshold) \<and>
         md_f2o_end m' = Some (np_where_gt (md_filter_end m) threshold) \<and>
         md_word2char_start m' = md_word2char_start m \<and>
         md_word2char_end m' = md_word2char_end m \<and>
         length (md_word2char_start m') = length (md_word2char_start m) \<and>
         length (md_word2char_end m') = length (md_word2char_end m) \<and>
         md_did m' = md_did m \<and> md_context m' = md_context m \<and> md_title m' = md_title m \<and>
         md_filter_start m' = md_filter_start m \<and> md_filter_end m' = md_filter_end m \<and>
         md_input_ids m' = md_input_ids m \<and> md_len_per_para m' = md_len_per_para m"
proof -
  from filter_metadata_Inr [OF assms] obtain a b c d e f g h i where
    "m' = m \<lparr> md_start := a, md_end := b, md_sparse := c, md_sparse_bi := d,
              md_sparse_tri := e, md_f2o_start := Some (np_where_gt (md_filter_start m) threshold),
              md_f2o_end := Some (np_where_gt (md_filter_end m) threshold),
              md_span_logits := h, md_start2end := i \<rparr>"
    by blast
  then show ?thesis by simp
qed

theorem filter_metadata_frame_witness:
  "filter_metadata md_example (1 / 2) = Inr md_example_filtered \<and>
   md_word2char_start md_example_filtered = [0, 2] \<and>
   md_word2char_end md_example_filtered = [1, 3] \<and>
   md_filter_end md_example_filtered = md_filter_end md_example \<and>
   md_f2o_end md_example_filtered = Some [1]"
proof -
  from filter_metadata_frame [OF example_filtered]
  have "md_filter_end md_example_filtered = md_filter_end md_example" by blast
  then show ?thesis
    using example_filtered by (simp add: md_example_filtered_def md_example_def)
qed

lemma take_rows_cases: "take_rows a idxs = Inl IndexError \<or> (\<exists>r. take_rows a idxs = Inr r)"
  by (simp add: take_rows_def)

lemma filter_metadata_sparse_None:
  assumes "md_sparse m = None"
  shows "filter_metadata m threshold = Inl IndexError \<or> filter_metadata m threshold = Inl TypeError"
proof -
  let ?S = "np_where_gt (md_filter_start m) threshold"
  let ?E = "np_where_gt (md_filter_end m) threshold"
  have t: "take_rows_opt (md_sparse m) ?S = Inl TypeError"
    using assms by (simp add: take_rows_opt_def)
  show ?thesis
    using take_rows_cases [of "md_start m" ?S] take_rows_cases [of "md_end m" ?E] t
    unfolding filter_metadata_def Let_def
    by (auto simp: bind_err_def)
qed

lemma filter_metadata_sparse_None_TypeError:
  assumes "md_sparse m = None"
    and "\<forall>i\<in>set (np_where_gt (md_filter_start m) threshold). i < length (md_start m)"
    and "\<forall>i\<in>set (np_where_gt (md_filter_end m) threshold). i < length (md_end m)"
  shows "filter_metadata m threshold = Inl TypeError"
  using assms unfolding filter_metadata_def Let_def
  by (simp add: bind_err_def take_rows_def take_rows_opt_def list_all_iff)

subsection \<open>Text alignment fallbacks\<close>

lemma str_find_from_None:
  "str_find_from text pat i = None \<longleftrightarrow> \<not> sublist pat text"
proof (induction "text" arbitrary: i)
  case Nil
  show ?case by simp
next
  case (Cons c cs)
  show ?case
  proof (cases "prefix pat (c # cs)")
    case True
    then show ?thesis by (auto simp: sublist_Cons_right)
  next
    case False
    then show ?thesis using Cons by (simp add: sublist_Cons_right)
  qed
qed

lemma str_find_minus_one: "str_find text pat = - 1 \<longleftrightarrow> \<not> sublist pat text"
  using str_find_from_None [of "text" pat 0]
  by (auto simp: str_find_def split: option.splits)

lemma strip_spaces_snoc:
  "strip_spaces (text @ [c]) = strip_spaces_step (length text, c) (strip_spaces text)"
  by (simp add: strip_spaces_def enumerate_append_eq)

lemma strip_spaces_text: "fst (strip_spaces text) = filter (\<lambda>c. c \<noteq> CHR '' '') text"
proof (induction "text" rule: rev_induct)
  case Nil
  show ?case by (simp add: strip_spaces_def)
next
  case (snoc c "text")
  then show ?case
    by (cases "strip_spaces text") (simp add: strip_spaces_snoc strip_spaces_step_def)
qed

lemma set_alist_update:
  "(k, v) \<in> set (AList.update k' v' al) \<Longrightarrow> (k, v) = (k', v') \<or> (k, v) \<in> set al"
  by (induction al) (auto split: if_splits)

lemma strip_spaces_values:
  "(k, i) \<in> set (snd (strip_spaces text)) \<Longrightarrow>
     0 \<le> i \<and> i < int (length text) \<and> text ! nat i \<noteq> CHR '' ''"
proof (induction "text" arbitrary: k i rule: rev_induct)
  case Nil
  then show ?case by (simp add: strip_spaces_def)
next
  case (snoc c "text")
  obtain ns al where s: "strip_spaces text = (ns, al)" by (cases "strip_spaces text")
  show ?case
  proof (cases "c = CHR '' ''")
    case True
    then have "(k, i) \<in> set (snd (strip_spaces text))"
      using snoc.prems s by (simp add: strip_spaces_snoc strip_spaces_step_def)
    from snoc.IH [OF this] show ?thesis by (auto simp: nth_append)
  next
    case False
    then have "(k, i) \<in> set (AList.update (int (length ns)) (int (length text)) al)"
      using snoc.prems s by (simp add: strip_spaces_snoc strip_spaces_step_def)
    then have "(k, i) = (int (length ns), int (length text)) \<or> (k, i) \<in> set al"
      by (rule set_alist_update)
    then show ?thesis
    proof
      assume "(k, i) = (int (length ns), int (length text))"
      then show ?thesis using False by simp
    next
      assume "(k, i) \<in> set al"
      then have "(k, i) \<in> set (snd (strip_spaces text))" using s by simp
      from snoc.IH [OF this] show ?thesis by (auto simp: nth_append)
    qed
  qed
qed

lemma invert_map_fold_dom:
  "fold (\<lambda>(i, tok_index) m. m(tok_index \<mapsto> i)) items m0 p = Some v \<Longrightarrow>
     m0 p = Some v \<or> (v, p) \<in> set items"
proof (induction items arbitrary: m0)
  case Nil
  then show ?case by simp
next
  case (Cons x items)
  obtain i t where x: "x = (i, t)" by (cases x)
  from Cons.prems have "fold (\<lambda>(i, tok_index) m. m(tok_index \<mapsto> i)) items (m0(t \<mapsto> i)) p = Some v"
    by (simp add: x del: fun_upd_apply)
  from Cons.IH [OF this] show ?case by (auto simp: x split: if_splits)
qed

lemma invert_map_Some:
  "invert_map items p = Some v \<Longrightarrow> (v, p) \<in> set items"
  unfolding invert_map_def using invert_map_fold_dom [of items Map.empty p v] by simp

lemma project_position_no_char:
  assumes "no_char_at text position"
  shows "project_position (invert_map (snd (strip_spaces text))) other position = None"
proof (cases "invert_map (snd (strip_spaces text)) position")
  case None
  then show ?thesis by (simp add: project_position_def)
next
  case (Some v)
  then have "(v, position) \<in> set (snd (strip_spaces text))" by (rule invert_map_Some)
  from strip_spaces_values [OF this] assms show ?thesis
    by (simp add: no_char_at_def)
qed

lemma alignment_not_found:
  assumes "\<not> sublist pred_text (join_space (tokenize do_lower_case orig_text))"
  shows "get_final_text tokenize pred_text orig_text do_lower_case = (0, int (length orig_text))"
    and "nq_get_final_text tokenize pred_text orig_text do_lower_case = orig_text"
  using assms
  by (simp_all add: get_final_text_def nq_get_final_text_def Let_def str_find_minus_one)

lemma alignment_length_mismatch:
  assumes "length (filter (\<lambda>c. c \<noteq> CHR '' '') orig_text)
             \<noteq> length (filter (\<lambda>c. c \<noteq> CHR '' '') (join_space (tokenize do_lower_case orig_text)))"
  shows "get_final_text tokenize pred_text orig_text do_lower_case = (0, int (length orig_text))"
    and "nq_get_final_text tokenize pred_text orig_text do_lower_case = orig_text"
proof -
  let ?tok = "join_space (tokenize do_lower_case orig_text)"
  have "length (fst (strip_spaces orig_text)) \<noteq> length (fst (strip_spaces ?tok))"
    using assms by (simp add: strip_spaces_text)
  then show "get_final_text tokenize pred_text orig_text do_lower_case = (0, int (length orig_text))"
    and "nq_get_final_text tokenize pred_text orig_text do_lower_case = orig_text"
    by (simp_all add: get_final_text_def nq_get_final_text_def Let_def case_prod_unfold)
qed

lemma alignment_unmapped:
  assumes "project_position (invert_map (snd (strip_spaces (join_space (tokenize do_lower_case orig_text)))))
             (snd (strip_spaces orig_text))
             (str_find (join_space (tokenize do_lower_case orig_text)) pred_text) = None
           \<or> project_position (invert_map (snd (strip_spaces (join_space (tokenize do_lower_case orig_text)))))
             (snd (strip_spaces orig_text))
             (str_find (join_space (tokenize do_lower_case orig_text)) pred_text
                + int (length pred_text) - 1) = None"
  shows "get_final_text tokenize pred_text orig_text do_lower_case = (0, int (length orig_text))"
    and "nq_get_final_text tokenize pred_text orig_text do_lower_case = orig_text"
  using assms
  by (auto simp: get_final_text_def nq_get_final_text_def Let_def case_prod_unfold
           split: option.splits)

lemma alignment_fails_fallback:
  assumes "alignment_fails (join_space (tokenize do_lower_case orig_text)) pred_text orig_text"
  shows "get_final_text tokenize pred_text orig_text do_lower_case = (0, int (length orig_text))
         \<and> nq_get_final_text tokenize pred_text orig_text do_lower_case = orig_text"
proof -
  let ?tok = "join_space (tokenize do_lower_case orig_text)"
  let ?sp = "str_find ?tok pred_text"
  let ?P = "\<lambda>p. project_position (invert_map (snd (strip_spaces ?tok)))
                  (snd (strip_spaces orig_text)) p"
  consider (a) "\<not> sublist pred_text ?tok"
    | (b) "length (filter (\<lambda>c. c \<noteq> CHR '' '') orig_text)
             \<noteq> length (filter (\<lambda>c. c \<noteq> CHR '' '') ?tok)"
    | (c) "no_char_at ?tok ?sp"
    | (d) "no_char_at ?tok (?sp + int (length pred_text) - 1)"
    using assms unfolding alignment_fails_def by blast
  then show ?thesis
  proof cases
    case a
    then show ?thesis using alignment_not_found by blast
  next
    case b
    then show ?thesis using alignment_length_mismatch by blast
  next
    case c
    then have "?P ?sp = None" by (rule project_position_no_char)
    then show ?thesis
      using alignment_unmapped [of tokenize do_lower_case orig_text pred_text] by blast
  next
    case d
    then have "?P (?sp + int (length pred_text) - 1) = None" by (rule project_position_no_char)
    then show ?thesis
      using alignment_unmapped [of tokenize do_lower_case orig_text pred_text] by blast
  qed
qed

text \<open>
  Claim C6. When \<open>pred_text\<close> is no substring of the space-joined re-tokenization of
  \<open>orig_text\<close>, \<open>get_final_text\<close> returns \<open>(0, len(orig_text))\<close> and
  \<open>nq_get_final_text\<close> returns \<open>orig_text\<close>. Both return the same values on the other
  failure paths: the texts without spaces differ in length, or the start or the end
  offset is not mapped (in particular when it is not the position of a character other
  than a space in the re-tokenized text). The model has no error result: apart from the
  external tokenizer nothing in either function can raise.
\<close>

theorem alignment_fallbacks:
  "(\<not> sublist pred_text (join_space (tokenize do_lower_case orig_text)) \<longrightarrow>
      get_final_text tokenize pred_text orig_text do_lower_case = (0, int (length orig_text)) \<and>
      nq_get_final_text tokenize pred_text orig_text do_lower_case = orig_text) \<and>
   (alignment_fails (join_space (tokenize do_lower_case orig_text)) pred_text orig_text \<longrightarrow>
      get_final_text tokenize pred_text orig_text do_lower_case = (0, int (length orig_text)) \<and>
      nq_get_final_text tokenize pred_text orig_text do_lower_case = orig_text) \<and>
   (project_position (invert_map (snd (strip_spaces (join_space (tokenize do_lower_case orig_text)))))
        (snd (strip_spaces orig_text))
        (str_find (join_space (tokenize do_lower_case orig_text)) pred_text) = None
      \<or> project_position (invert_map (snd (strip_spaces (join_space (tokenize do_lower_case orig_text)))))
        (snd (strip_spaces orig_text))
        (str_find (join_space (tokenize do_lower_case orig_text)) pred_text
           + int (length pred_text) - 1) = None \<longrightarrow>
      get_final_text tokenize pred_text orig_text do_lower_case = (0, int (length orig_text)) \<and>
      nq_get_final_text tokenize pred_text orig_text do_lower_case = orig_text)"
  using alignment_not_found [of pred_text tokenize do_lower_case orig_text]
        alignment_fails_fallback [of tokenize do_lower_case orig_text pred_text]
        alignment_unmapped [of tokenize do_lower_case orig_text pred_text]
  by blast

theorem alignment_fallbacks_witness:
  "\<not> sublist ''c'' (join_space (whitespace_tokenize False ''a  b'')) \<and>
   get_final_text whitespace_tokenize ''c'' ''a  b'' False = (0, 4) \<and>
   nq_get_final_text whitespace_tokenize ''c'' ''a  b'' False = ''a  b'' \<and>
   alignment_fails (join_space (whitespace_tokenize False ''a  b'')) '' b'' ''a  b'' \<and>
   nq_get_final_text whitespace_tokenize '' b'' ''a  b'' False = ''a  b''"
proof -
  have tok: "join_space (whitespace_tokenize False ''a  b'') = ''a b''"
    by (simp add: whitespace_tokenize_def str_split_def py_isspace_def)
  have ns: "\<not> sublist ''c'' (join_space (whitespace_tokenize False ''a  b''))"
    unfolding tok using str_find_from_None [of "''a b''" "''c''" 0] by simp
  have af: "alignment_fails (join_space (whitespace_tokenize False ''a  b'')) '' b'' ''a  b''"
    unfolding tok by (simp add: alignment_fails_def no_char_at_def str_find_def)
  show ?thesis
    using alignment_fallbacks [of "''c''" whitespace_tokenize False "''a  b''"]
          alignment_fallbacks [of "'' b''" whitespace_tokenize False "''a  b''"] ns af
    by simp
qed

subsection \<open>Prelim predictions of the yes/no/span writer\<close>

lemma bind_err_Inr_iff:
  "bind_err r f = Inr v \<longleftrightarrow> (\<exists>u. r = Inr u \<and> f u = Inr v)"
  by (cases r) (auto simp: bind_err_def)

lemma py_nth_Inr: "py_nth xs i = Inr v \<longleftrightarrow> i < length xs \<and> v = xs ! i"
  by (auto simp: py_nth_def)

lemma py_lookup_Inr: "py_lookup d k = Inr v \<longleftrightarrow> d k = Some v"
  by (auto simp: py_lookup_def split: option.splits)

lemma nq_scan_appends:
  "nq_scan feature feature_index result n_best_size npn scores acc = Inr ps \<Longrightarrow>
     \<exists>new. ps = acc @ new \<and> (\<forall>p\<in>set new. prelim_of feature feature_index result p)"
proof (induction scores arbitrary: acc)
  case Nil
  then show ?case by simp
next
  case (Cons x rest)
  obtain start_index end_index score where x: "x = ((start_index, end_index), score)"
    by (cases x) auto
  let ?skip = "start_index \<ge> length (f_tokens feature) \<or> end_index \<ge> length (f_tokens feature) \<or>
     f_token_to_word_map feature (int start_index) = None \<or>
     f_token_to_word_map feature (int end_index) = None \<or>
     \<not> (case f_token_is_max_context feature (int start_index) of None \<Rightarrow> False | Some b \<Rightarrow> b) \<or>
     end_index < start_index"
  show ?case
  proof (cases ?skip)
    case True
    then have "nq_scan feature feature_index result n_best_size npn rest acc = Inr ps"
      using Cons.prems unfolding x by (simp split: if_splits)
    then show ?thesis by (rule Cons.IH)
  next
    case False
    then obtain sw where sw: "py_nth (r_switch result) 3 = Inr sw"
      using Cons.prems unfolding x by (auto simp: bind_err_Inr_iff)
    define p where "p = \<lparr> pp_paragraph_index = f_paragraph_index feature,
                   pp_feature_index = feature_index,
                   pp_start_index = int start_index,
                   pp_end_index = int end_index,
                   pp_logit = - sw,
                   pp_no_answer_logit = sw \<rparr>"
    have pp: "prelim_of feature feature_index result p"
      using False sw by (auto simp: prelim_of_def p_def py_nth_Inr)
    have res: "(if npn \<and> int (length (acc @ [p])) \<ge> n_best_size then Inr (acc @ [p])
               else nq_scan feature feature_index result n_best_size npn rest (acc @ [p])) = Inr ps"
      using False sw Cons.prems unfolding x
      by (auto simp: bind_err_def Let_def p_def split: if_splits)
    show ?thesis
    proof (cases "npn \<and> int (length (acc @ [p])) \<ge> n_best_size")
      case True
      then have "ps = acc @ [p]" using res by simp
      then show ?thesis using pp by simp
    next
      case stop: False
      then have "nq_scan feature feature_index result n_best_size npn rest (acc @ [p]) = Inr ps"
        using res by (auto split: if_splits)
      from Cons.IH [OF this] obtain new where "ps = (acc @ [p]) @ new"
        "\<forall>p\<in>set new. prelim_of feature feature_index result p" by blast
      then have "ps = acc @ (p # new) \<and> (\<forall>q\<in>set (p # new). prelim_of feature feature_index result q)"
        using pp by simp
      then show ?thesis by blast
    qed
  qed
qed

lemma nq_feature_wf:
  assumes "nq_feature all_results n_best_size npn (i, f) acc = Inr ps"
    and "i < length features" and "features ! i = f"
    and "\<forall>p\<in>set acc. prelim_wf all_results features p"
  shows "\<forall>p\<in>set ps. prelim_wf all_results features p"
proof -
  from assms(1) obtain r where r: "unique_id_to_result all_results (f_unique_id f) = Some r"
    and scan: "nq_scan f i r n_best_size npn (nq_sorted_scores f r) acc = Inr ps"
    by (auto simp: nq_feature_def bind_err_Inr_iff py_lookup_Inr)
  from nq_scan_appends [OF scan] obtain new where new: "ps = acc @ new"
    "\<forall>p\<in>set new. prelim_of f i r p" by blast
  have "\<forall>p\<in>set new. prelim_wf all_results features p"
  proof
    fix p assume "p \<in> set new"
    then have p: "prelim_of f i r p" using new(2) by blast
    then have "pp_feature_index p = i" by (simp add: prelim_of_def)
    then show "prelim_wf all_results features p"
      using p r assms(2,3) unfolding prelim_wf_def by auto
  qed
  then show ?thesis using new(1) assms(4) by auto
qed

lemma nq_features_wf:
  assumes "nq_features all_results n_best_size npn results acc = Inr ps"
    and "\<forall>x\<in>set results. fst x < length features \<and> features ! fst x = snd x"
    and "\<forall>p\<in>set acc. prelim_wf all_results features p"
  shows "\<forall>p\<in>set ps. prelim_wf all_results features p"
  using assms
proof (induction results arbitrary: acc)
  case Nil
  then show ?case by simp
next
  case (Cons x results)
  obtain i f where x: "x = (i, f)" by (cases x)
  from Cons.prems(1) obtain mid where
    mid: "nq_feature all_results n_best_size npn (i, f) acc = Inr mid"
    and rest: "nq_features all_results n_best_size npn results mid = Inr ps"
    by (auto simp: x bind_err_Inr_iff)
  have "\<forall>p\<in>set mid. prelim_wf all_results features p"
    using nq_feature_wf [OF mid _ _ Cons.prems(3)] Cons.prems(2) by (simp add: x)
  then show ?case using Cons.IH [OF rest] Cons.prems(2) by simp
qed

lemma nq_candidate_features_enumerate:
  assumes "nq_candidate_features all_results npn features = Inr results"
  shows "\<forall>x\<in>set results. fst x < length features \<and> features ! fst x = snd x"
proof -
  have "set results \<subseteq> set (enumerate 0 features)"
  proof (cases npn)
    case True
    show ?thesis
    proof (cases "switch3_keys all_results (enumerate 0 features)")
      case (Inl e)
      then show ?thesis using assms True
        by (simp add: nq_candidate_features_def bind_err_def)
    next
      case (Inr keys)
      then have "results = take 1 (map snd (sort_key fst (zip keys (enumerate 0 features))))"
        using assms True by (simp add: nq_candidate_features_def bind_err_def)
      then have "set results \<subseteq> snd ` set (zip keys (enumerate 0 features))"
        using set_take_subset [of 1 "map snd (sort_key fst (zip keys (enumerate 0 features)))"]
        by simp
      also have "\<dots> \<subseteq> set (enumerate 0 features)"
        by (auto dest: set_zip_rightD)
      finally show ?thesis .
    qed
  next
    case False
    then show ?thesis using assms by (simp add: nq_candidate_features_def)
  qed
  then show ?thesis by (auto simp: in_set_enumerate_eq)
qed

lemma nq_prelim_predictions_wf:
  assumes "nq_prelim_predictions all_features all_results n_best_size npn example_index = Inr ps"
  shows "\<forall>p\<in>set ps. prelim_wf all_results (example_features all_features example_index) p"
proof (cases "length (example_features all_features example_index) = 0 \<and> npn")
  case True
  then have "ps = []" using assms by (simp add: nq_prelim_predictions_def Let_def)
  then show ?thesis by simp
next
  case False
  then obtain results where
    c: "nq_candidate_features all_results npn (example_features all_features example_index) = Inr results"
    and f: "nq_features all_results n_best_size npn results [] = Inr ps"
    using assms by (auto simp: nq_prelim_predictions_def Let_def bind_err_Inr_iff)
  show ?thesis
    using nq_features_wf [OF f nq_candidate_features_enumerate [OF c]] by simp
qed

lemma nq_prelims_example_eval:
  "nq_prelim_predictions [nq_feature_example] [nq_result_example] 20 True 0 = Inr nq_prelims_example"
  by (simp add: nq_prelim_predictions_def example_features_def nq_feature_example_def
        nq_result_example_def nq_candidate_features_def unique_id_to_result_def
        py_lookup_def py_nth_def bind_err_def nq_feature_def nq_sorted_scores_def
        nq_scores_def nq_prelims_example_def enumerate_eq_zip upt_rec Let_def)

text \<open>
  Claim C7. Every prelim prediction that \<open>write_predictions_nq\<close> appends while it
  processes a feature whose result is \<open>r\<close> has the logit \<open>-r.switch[3]\<close> and the
  no-answer logit \<open>r.switch[3]\<close>; so the predictions of one feature share one ranking
  logit, whatever their start and end logits are.
\<close>

theorem nq_prelim_logit_is_negated_switch:
  assumes "nq_prelim_predictions all_features all_results n_best_size n_paragraphs_is_None
             example_index = Inr ps"
  shows "(\<forall>p\<in>set ps.
            pp_feature_index p < length (example_features all_features example_index) \<and>
            (\<exists>r. unique_id_to_result all_results
                   (f_unique_id (example_features all_features example_index ! pp_feature_index p))
                   = Some r \<and>
                 3 < length (r_switch r) \<and>
                 pp_logit p = - (r_switch r ! 3) \<and>
                 pp_no_answer_logit p = r_switch r ! 3)) \<and>
         (\<forall>p\<in>set ps. \<forall>q\<in>set ps.
            pp_feature_index p = pp_feature_index q \<longrightarrow> pp_logit p = pp_logit q)"
proof -
  let ?fs = "example_features all_features example_index"
  have wf: "\<forall>p\<in>set ps. prelim_wf all_results ?fs p"
    using assms by (rule nq_prelim_predictions_wf)
  have A: "\<forall>p\<in>set ps.
            pp_feature_index p < length ?fs \<and>
            (\<exists>r. unique_id_to_result all_results (f_unique_id (?fs ! pp_feature_index p)) = Some r \<and>
                 3 < length (r_switch r) \<and>
                 pp_logit p = - (r_switch r ! 3) \<and>
                 pp_no_answer_logit p = r_switch r ! 3)"
    using wf unfolding prelim_wf_def prelim_of_def by blast
  have B: "\<forall>p\<in>set ps. \<forall>q\<in>set ps.
            pp_feature_index p = pp_feature_index q \<longrightarrow> pp_logit p = pp_logit q"
  proof (intro ballI impI)
    fix p q assume p: "p \<in> set ps" and q: "q \<in> set ps"
      and eq: "pp_feature_index p = pp_feature_index q"
    from A p obtain r where r: "unique_id_to_result all_results
        (f_unique_id (?fs ! pp_feature_index p)) = Some r" "pp_logit p = - (r_switch r ! 3)"
      by blast
    from A q obtain r' where r': "unique_id_to_result all_results
        (f_unique_id (?fs ! pp_feature_index q)) = Some r'" "pp_logit q = - (r_switch r' ! 3)"
      by blast
    have "r = r'" using r(1) r'(1) eq by simp
    then show "pp_logit p = pp_logit q" using r(2) r'(2) by simp
  qed
  show ?thesis using A B by blast
qed

theorem nq_prelim_logit_is_negated_switch_witness:
  "nq_prelim_predictions [nq_feature_example] [nq_result_example] 20 True 0
     = Inr nq_prelims_example \<and>
   map pp_logit nq_prelims_example = [- 5, - 5, - 5] \<and>
   r_switch nq_result_example ! 3 = 5 \<and>
   pp_logit (nq_prelims_example ! 0) = pp_logit (nq_prelims_example ! 1)"
proof -
  have "nq_prelims_example ! 0 \<in> set nq_prelims_example"
    "nq_prelims_example ! 1 \<in> set nq_prelims_example"
    "pp_feature_index (nq_prelims_example ! 0) = pp_feature_index (nq_prelims_example ! 1)"
    by (simp_all add: nq_prelims_example_def)
  then have "pp_logit (nq_prelims_example ! 0) = pp_logit (nq_prelims_example ! 1)"
    using nq_prelim_logit_is_negated_switch [OF nq_prelims_example_eval] by blast
  then show ?thesis
    using nq_prelims_example_eval
    by (simp add: nq_prelims_example_def nq_result_example_def)
qed

lemma nq_scores_pairs:
  assumes "c \<in> set (nq_scores feature result)"
  shows "fst (fst c) \<le> snd (fst c) \<and> fst (fst c) < length (f_tokens feature) \<and>
         snd (fst c) < length (f_tokens feature)"
proof -
  let ?n = "length (f_tokens feature)"
  let ?sl = "take ?n (r_start_logits result)"
  let ?el = "take ?n (r_end_logits result)"
  from assms obtain i s j e where
    i_s: "(i, s) \<in> set (enumerate 0 ?sl)"
    and je: "(j, e) \<in> set (enumerate 0 (take 10 (drop i ?el)))"
    and c: "c = ((i, i + j), s + e)"
    by (auto simp: nq_scores_def Let_def)
  have "i < ?n" using i_s by (auto simp: in_set_enumerate_eq)
  moreover have "i + j < ?n" using je by (auto simp: in_set_enumerate_eq)
  ultimately show ?thesis using c by simp
qed

text \<open>
  Claim C9. Every prelim prediction built by \<open>write_predictions_nq\<close> has
  \<open>0 \<le> start_index \<le> end_index < len(feature.tokens)\<close> for the feature it names. So
  \<open>get_nbest_json\<close> takes neither sentinel branch for it: its text is the span text, not
  the synthetic \<open>yes\<close> or \<open>no\<close>. And no scored pair has its end before its start (or
  outside the tokens), so the guard \<open>end_index < start_index\<close> never rejects.
\<close>

theorem nq_prelim_spans_in_range:
  assumes "nq_prelim_predictions all_features all_results n_best_size n_paragraphs_is_None
             example_index = Inr ps"
  shows "(\<forall>p\<in>set ps.
            pp_feature_index p < length (example_features all_features example_index) \<and>
            0 \<le> pp_start_index p \<and> pp_start_index p \<le> pp_end_index p \<and>
            pp_end_index p < int (length (f_tokens
               (example_features all_features example_index ! pp_feature_index p))) \<and>
            nbest_text_branch p = Span_branch \<and>
            nbest_final_text tokenize do_lower_case
                (example_features all_features example_index) p
              = span_final_text tokenize do_lower_case
                  (example_features all_features example_index) p) \<and>
         (\<forall>c\<in>set (nq_sorted_scores feature result).
            \<not> snd (fst c) < fst (fst c) \<and>
            fst (fst c) < length (f_tokens feature) \<and> snd (fst c) < length (f_tokens feature))"
proof -
  let ?fs = "example_features all_features example_index"
  have wf: "\<forall>p\<in>set ps. prelim_wf all_results ?fs p"
    using assms by (rule nq_prelim_predictions_wf)
  have A: "\<forall>p\<in>set ps.
            pp_feature_index p < length ?fs \<and>
            0 \<le> pp_start_index p \<and> pp_start_index p \<le> pp_end_index p \<and>
            pp_end_index p < int (length (f_tokens (?fs ! pp_feature_index p))) \<and>
            nbest_text_branch p = Span_branch \<and>
            nbest_final_text tokenize do_lower_case ?fs p
              = span_final_text tokenize do_lower_case ?fs p"
  proof
    fix p assume "p \<in> set ps"
    then have "prelim_wf all_results ?fs p" using wf by blast
    then have r: "pp_feature_index p < length ?fs" "0 \<le> pp_start_index p"
      "pp_start_index p \<le> pp_end_index p"
      "pp_end_index p < int (length (f_tokens (?fs ! pp_feature_index p)))"
      unfolding prelim_wf_def prelim_of_def by auto
    have b: "nbest_text_branch p = Span_branch"
      using r(2,3) by (simp add: nbest_text_branch_def)
    then have "nbest_final_text tokenize do_lower_case ?fs p
                 = span_final_text tokenize do_lower_case ?fs p"
      by (simp add: nbest_final_text_def)
    then show "pp_feature_index p < length ?fs \<and>
            0 \<le> pp_start_index p \<and> pp_start_index p \<le> pp_end_index p \<and>
            pp_end_index p < int (length (f_tokens (?fs ! pp_feature_index p))) \<and>
            nbest_text_branch p = Span_branch \<and>
            nbest_final_text tokenize do_lower_case ?fs p
              = span_final_text tokenize do_lower_case ?fs p"
      using r b by simp
  qed
  have B: "\<forall>c\<in>set (nq_sorted_scores feature result).
            \<not> snd (fst c) < fst (fst c) \<and>
            fst (fst c) < length (f_tokens feature) \<and> snd (fst c) < length (f_tokens feature)"
  proof
    fix c assume "c \<in> set (nq_sorted_scores feature result)"
    then have "c \<in> set (nq_scores feature result)" by (simp add: nq_sorted_scores_def)
    from nq_scores_pairs [OF this]
    show "\<not> snd (fst c) < fst (fst c) \<and>
            fst (fst c) < length (f_tokens feature) \<and> snd (fst c) < length (f_tokens feature)"
      by simp
  qed
  show ?thesis using A B by blast
qed

theorem nq_prelim_spans_in_range_witness:
  "nq_prelim_predictions [nq_feature_example] [nq_result_example] 20 True 0
     = Inr nq_prelims_example \<and>
   map pp_start_index nq_prelims_example = [1, 2, 1] \<and>
   map pp_end_index nq_prelims_example = [2, 2, 1] \<and>
   length (f_tokens nq_feature_example) = 4 \<and>
   nbest_text_branch (nq_prelims_example ! 0) = Span_branch"
proof -
  have "nq_prelims_example ! 0 \<in> set nq_prelims_example"
    by (simp add: nq_prelims_example_def)
  then have "nbest_text_branch (nq_prelims_example ! 0) = Span_branch"
    using nq_prelim_spans_in_range [OF nq_prelims_example_eval] by blast
  then show ?thesis
    using nq_prelims_example_eval
    by (simp add: nq_prelims_example_def nq_feature_example_def)
qed

subsection \<open>Span prediction writer\<close>

lemma fold_err_track:
  assumes "I pre s"
    and "\<And>x pre s. x \<in> set xs \<Longrightarrow> I pre s \<Longrightarrow> \<exists>s'. f x s = Inr s' \<and> I (pre @ [x]) s'"
  shows "\<exists>s'. fold_err f xs s = Inr s' \<and> I (pre @ xs) s'"
  using assms
proof (induction xs arbitrary: pre s)
  case Nil
  then show ?case by simp
next
  case (Cons x xs)
  from Cons.prems(2) [of x pre s] Cons.prems(1)
  obtain s1 where s1: "f x s = Inr s1" "I (pre @ [x]) s1" by auto
  have "\<exists>s'. fold_err f xs s1 = Inr s' \<and> I ((pre @ [x]) @ xs) s'"
  proof (rule Cons.IH [OF s1(2)])
    fix y pre' s'
    assume "y \<in> set xs" "I pre' s'"
    then show "\<exists>s''. f y s' = Inr s'' \<and> I (pre' @ [y]) s''"
      using Cons.prems(2) [of y pre' s'] by simp
  qed
  then show ?case using s1(1) by (simp add: bind_err_def)
qed

lemma wp_inv_skip_fields:
  "wp_inv C (st \<lparr> wp_vec_count := v \<rparr>) = wp_inv C st"
  "wp_inv C (st \<lparr> wp_loss := l \<rparr>) = wp_inv C st"
  "wp_inv C (st \<lparr> wp_token_count := n \<rparr>) = wp_inv C st"
  by (simp_all add: wp_inv_def)

lemma wp_inv_better:
  assumes "wp_inv C st" and "wp_scores st q = None \<or> v > the (wp_scores st q)"
  shows "wp_inv (insert (q, v, t) C)
           (st \<lparr> wp_predictions := (wp_predictions st)(q \<mapsto> t),
                 wp_scores := (wp_scores st)(q \<mapsto> v) \<rparr>)"
proof -
  have old: "\<And>q'. (wp_scores st q' = None \<longrightarrow>
               wp_predictions st q' = None \<and> (\<forall>c\<in>C. fst c \<noteq> q')) \<and>
          (\<forall>v. wp_scores st q' = Some v \<longrightarrow>
               (\<exists>t. wp_predictions st q' = Some t \<and> (q', v, t) \<in> C) \<and>
               (\<forall>c\<in>C. fst c = q' \<longrightarrow> fst (snd c) \<le> v))"
    using assms(1) unfolding wp_inv_def by blast
  have le: "\<forall>c\<in>C. fst c = q \<longrightarrow> fst (snd c) \<le> v"
  proof (cases "wp_scores st q")
    case None
    then show ?thesis using old [of q] by auto
  next
    case (Some v0)
    then have "v0 < v" using assms(2) by simp
    moreover have "\<forall>c\<in>C. fst c = q \<longrightarrow> fst (snd c) \<le> v0"
      using old [of q] Some by simp
    ultimately show ?thesis by fastforce
  qed
  show ?thesis
    unfolding wp_inv_def
  proof (intro allI)
    fix q'
    show "(wp_scores (st \<lparr> wp_predictions := (wp_predictions st)(q \<mapsto> t),
                 wp_scores := (wp_scores st)(q \<mapsto> v) \<rparr>) q' = None \<longrightarrow>
             wp_predictions (st \<lparr> wp_predictions := (wp_predictions st)(q \<mapsto> t),
                 wp_scores := (wp_scores st)(q \<mapsto> v) \<rparr>) q' = None \<and>
             (\<forall>c\<in>insert (q, v, t) C. fst c \<noteq> q')) \<and>
          (\<forall>v'. wp_scores (st \<lparr> wp_predictions := (wp_predictions st)(q \<mapsto> t),
                 wp_scores := (wp_scores st)(q \<mapsto> v) \<rparr>) q' = Some v' \<longrightarrow>
             (\<exists>t'. wp_predictions (st \<lparr> wp_predictions := (wp_predictions st)(q \<mapsto> t),
                 wp_scores := (wp_scores st)(q \<mapsto> v) \<rparr>) q' = Some t' \<and>
                   (q', v', t') \<in> insert (q, v, t) C) \<and>
             (\<forall>c\<in>insert (q, v, t) C. fst c = q' \<longrightarrow> fst (snd c) \<le> v'))"
    proof (cases "q' = q")
      case True
      then show ?thesis using le by simp
    next
      case False
      then show ?thesis using old [of q'] by auto
    qed
  qed
qed

lemma wp_inv_not_better:
  assumes "wp_inv C st" and "wp_scores st q = Some v0" and "\<not> v > v0"
  shows "wp_inv (insert (q, v, t) C) st"
proof -
  have old: "\<And>q'. (wp_scores st q' = None \<longrightarrow>
               wp_predictions st q' = None \<and> (\<forall>c\<in>C. fst c \<noteq> q')) \<and>
          (\<forall>v. wp_scores st q' = Some v \<longrightarrow>
               (\<exists>t. wp_predictions st q' = Some t \<and> (q', v, t) \<in> C) \<and>
               (\<forall>c\<in>C. fst c = q' \<longrightarrow> fst (snd c) \<le> v))"
    using assms(1) unfolding wp_inv_def by blast
  show ?thesis
    unfolding wp_inv_def
  proof (intro allI)
    fix q'
    show "(wp_scores st q' = None \<longrightarrow>
             wp_predictions st q' = None \<and> (\<forall>c\<in>insert (q, v, t) C. fst c \<noteq> q')) \<and>
          (\<forall>v'. wp_scores st q' = Some v' \<longrightarrow>
             (\<exists>t'. wp_predictions st q' = Some t' \<and> (q', v', t') \<in> insert (q, v, t) C) \<and>
             (\<forall>c\<in>insert (q, v, t) C. fst c = q' \<longrightarrow> fst (snd c) \<le> v'))"
    proof (cases "q' = q")
      case True
      then show ?thesis using old [of q] assms(2,3) by auto
    next
      case False
      then show ?thesis using old [of q'] by auto
    qed
  qed
qed

lemma get_final_text_span_Inr:
  assumes "f_token_to_word_map feature s \<noteq> None" "f_token_to_word_map feature e \<noteq> None"
  shows "\<exists>t a b. get_final_text_span tokenize ex feature s e do_lower_case = Inr (t, a, b)"
  using assms
  by (auto simp: get_final_text_span_def Let_def bind_err_def py_lookup_def case_prod_unfold)

lemma max_context_get:
  "(case m k of None \<Rightarrow> False | Some b \<Rightarrow> b) \<longleftrightarrow> m k = Some True"
  by (cases "m k") auto

lemma wp_pair_step:
  assumes "s < length (r_filter_start_logits r)" and "e < length (r_filter_end_logits r)"
    and "s < length (r_all_logits r)" and "e < length (r_all_logits r ! s)"
    and inv: "wp_inv C st"
  shows "\<exists>st'. wp_pair tokenize dlc thr ex f r q s e st = Inr st' \<and>
           wp_inv (C \<union> (if passes f r thr s e
                         then {(q, r_all_logits r ! s ! e, span_text tokenize dlc ex f s e)}
                         else {})) st' \<and>
           wp_token_count st' = wp_token_count st \<and> wp_loss st' = wp_loss st"
proof (cases "passes f r thr s e")
  case False
  then have "wp_pair tokenize dlc thr ex f r q s e st = Inr st"
    using assms(1,2)
    by (auto simp: wp_pair_def passes_def max_context_get py_nth_def bind_err_def)
  then show ?thesis using False inv by simp
next
  case True
  let ?v = "r_all_logits r ! s ! e"
  let ?t = "span_text tokenize dlc ex f s e"
  let ?st1 = "st \<lparr> wp_vec_count := wp_vec_count st + 1 \<rparr>"
  from True obtain t a b where
    g: "get_final_text_span tokenize ex f (int s) (int e) dlc = Inr (t, a, b)"
    using get_final_text_span_Inr [of f "int s" "int e" tokenize ex dlc]
    by (auto simp: passes_def)
  then have t: "?t = py_slice t a b" by (simp add: span_text_def)
  show ?thesis
  proof (cases "wp_scores st q = None \<or> ?v > the (wp_scores st q)")
    case better: True
    let ?st' = "?st1 \<lparr> wp_predictions := (wp_predictions ?st1)(q \<mapsto> ?t),
                       wp_scores := (wp_scores ?st1)(q \<mapsto> ?v) \<rparr>"
    have "wp_pair tokenize dlc thr ex f r q s e st = Inr ?st'"
      using True better assms(1-4) g t
      by (auto simp: wp_pair_def passes_def max_context_get py_nth_def bind_err_def Let_def)
    moreover have "wp_inv (insert (q, ?v, ?t) C) ?st'"
      using wp_inv_better [of C ?st1 q ?v ?t] inv better by (simp add: wp_inv_skip_fields)
    ultimately show ?thesis using True by simp
  next
    case worse: False
    then obtain v0 where v0: "wp_scores st q = Some v0" "\<not> ?v > v0" by auto
    have "wp_pair tokenize dlc thr ex f r q s e st = Inr ?st1"
      using True worse assms(1-4)
      by (auto simp: wp_pair_def passes_def max_context_get py_nth_def bind_err_def Let_def)
    moreover have "wp_inv (insert (q, ?v, ?t) C) ?st1"
      using wp_inv_not_better [of C ?st1 q v0 ?v ?t] inv v0 by (simp add: wp_inv_skip_fields)
    ultimately show ?thesis using True by simp
  qed
qed

lemma triples_of_Un:
  "triples_of tokenize dlc thr ex f r (P \<union> Q) =
     triples_of tokenize dlc thr ex f r P \<union> triples_of tokenize dlc thr ex f r Q"
  unfolding triples_of_def by blast

lemma triples_of_single:
  "triples_of tokenize dlc thr ex f r {(s, e)} =
     (if passes f r thr s e
      then {(ex_qas_id ex, r_all_logits r ! s ! e, span_text tokenize dlc ex f s e)} else {})"
  unfolding triples_of_def by auto

lemma triples_of_empty: "triples_of tokenize dlc thr ex f r {} = {}"
  unfolding triples_of_def by simp

lemma wp_inner:
  assumes "s < n" and "m \<le> n"
    and "n \<le> length (r_filter_start_logits r)" and "n \<le> length (r_filter_end_logits r)"
    and "n \<le> length (r_all_logits r)"
    and "\<forall>row\<in>set (take n (r_all_logits r)). n \<le> length row"
    and inv: "wp_inv C st"
  shows "\<exists>st'. fold_err (wp_pair tokenize dlc thr ex f r (ex_qas_id ex) s) [s..<m] st = Inr st' \<and>
           wp_inv (C \<union> triples_of tokenize dlc thr ex f r (Pair s ` {s..<m})) st' \<and>
           wp_token_count st' = wp_token_count st \<and> wp_loss st' = wp_loss st"
proof -
  define I where "I = (\<lambda>pre st'.
      wp_inv (C \<union> triples_of tokenize dlc thr ex f r (Pair s ` set pre)) st' \<and>
      wp_token_count st' = wp_token_count st \<and> wp_loss st' = wp_loss st)"
  have row: "length (r_all_logits r ! s) \<ge> n"
  proof -
    have "r_all_logits r ! s \<in> set (take n (r_all_logits r))"
      using assms(1,5) by (auto simp: in_set_conv_nth intro!: exI [of _ s])
    then show ?thesis using assms(6) by blast
  qed
  have init: "I [] st" using inv by (simp add: I_def triples_of_empty)
  have step: "\<exists>s'. wp_pair tokenize dlc thr ex f r (ex_qas_id ex) s x st0 = Inr s' \<and> I (pre @ [x]) s'"
    if "x \<in> set [s..<m]" "I pre st0" for x pre st0
  proof -
    have x: "x < n" using that(1) assms(2) by simp
    have inv0: "wp_inv (C \<union> triples_of tokenize dlc thr ex f r (Pair s ` set pre)) st0"
      using that(2) by (simp add: I_def)
    from wp_pair_step [of s r x "C \<union> triples_of tokenize dlc thr ex f r (Pair s ` set pre)"
                          st0 tokenize dlc thr ex f "ex_qas_id ex"]
    obtain st1 where st1: "wp_pair tokenize dlc thr ex f r (ex_qas_id ex) s x st0 = Inr st1"
      "wp_inv ((C \<union> triples_of tokenize dlc thr ex f r (Pair s ` set pre)) \<union>
               triples_of tokenize dlc thr ex f r {(s, x)}) st1"
      "wp_token_count st1 = wp_token_count st0" "wp_loss st1 = wp_loss st0"
      using x assms(1,3,4,5) row inv0 by (auto simp: triples_of_single)
    have "Pair s ` set (pre @ [x]) = Pair s ` set pre \<union> {(s, x)}" by auto
    then have "C \<union> triples_of tokenize dlc thr ex f r (Pair s ` set (pre @ [x]))
                 = (C \<union> triples_of tokenize dlc thr ex f r (Pair s ` set pre)) \<union>
                   triples_of tokenize dlc thr ex f r {(s, x)}"
      by (simp only: triples_of_Un Un_assoc)
    then have "I (pre @ [x]) st1" using st1(2,3,4) that(2) by (simp add: I_def)
    then show ?thesis using st1(1) by blast
  qed
  have "\<exists>st'. fold_err (wp_pair tokenize dlc thr ex f r (ex_qas_id ex) s) [s..<m] st = Inr st' \<and>
          I ([] @ [s..<m]) st'"
  proof (rule fold_err_track [where I = I and f = "wp_pair tokenize dlc thr ex f r (ex_qas_id ex) s"])
    show "I [] st" by (rule init)
  next
    fix x pre st0 assume "x \<in> set [s..<m]" "I pre st0"
    then show "\<exists>s'. wp_pair tokenize dlc thr ex f r (ex_qas_id ex) s x st0 = Inr s' \<and> I (pre @ [x]) s'"
      by (rule step)
  qed
  then show ?thesis by (auto simp: I_def)
qed

lemma wp_outer:
  assumes "n \<le> length (r_filter_start_logits r)" and "n \<le> length (r_filter_end_logits r)"
    and "n \<le> length (r_all_logits r)"
    and "\<forall>row\<in>set (take n (r_all_logits r)). n \<le> length row"
    and inv: "wp_inv C st"
  shows "\<exists>st'. fold_err (\<lambda>start_index.
                   fold_err (wp_pair tokenize dlc thr ex f r (ex_qas_id ex) start_index)
                     [start_index ..< nat (min (int n) (int start_index + L - 1))])
                 [0..<n] st = Inr st' \<and>
           wp_inv (C \<union> triples_of tokenize dlc thr ex f r
                     {(s, e). s < n \<and> s \<le> e \<and> e < nat (min (int n) (int s + L - 1))}) st' \<and>
           wp_token_count st' = wp_token_count st \<and> wp_loss st' = wp_loss st"
proof -
  let ?m = "\<lambda>s. nat (min (int n) (int s + L - 1))"
  let ?body = "\<lambda>start_index.
                   fold_err (wp_pair tokenize dlc thr ex f r (ex_qas_id ex) start_index)
                     [start_index ..< ?m start_index]"
  define I where "I = (\<lambda>pre st'.
      wp_inv (C \<union> triples_of tokenize dlc thr ex f r
                {(s, e). s \<in> set pre \<and> s \<le> e \<and> e < ?m s}) st' \<and>
      wp_token_count st' = wp_token_count st \<and> wp_loss st' = wp_loss st)"
  have init: "I [] st" using inv by (simp add: I_def triples_of_empty)
  have step: "\<exists>s'. ?body x st0 = Inr s' \<and> I (pre @ [x]) s'"
    if "x \<in> set [0..<n]" "I pre st0" for x pre st0
  proof -
    let ?C0 = "C \<union> triples_of tokenize dlc thr ex f r {(s, e). s \<in> set pre \<and> s \<le> e \<and> e < ?m s}"
    have x: "x < n" using that(1) by simp
    have m: "?m x \<le> n" by simp
    have inv0: "wp_inv ?C0 st0" using that(2) by (simp add: I_def)
    from wp_inner [OF x m assms(1-4) inv0, of tokenize dlc thr ex f]
    obtain st1 where st1: "?body x st0 = Inr st1"
      "wp_inv (?C0 \<union> triples_of tokenize dlc thr ex f r (Pair x ` {x..<?m x})) st1"
      "wp_token_count st1 = wp_token_count st0" "wp_loss st1 = wp_loss st0"
      by blast
    have "{(s, e). s \<in> set (pre @ [x]) \<and> s \<le> e \<and> e < ?m s}
            = {(s, e). s \<in> set pre \<and> s \<le> e \<and> e < ?m s} \<union> Pair x ` {x..<?m x}"
      by auto
    then have "C \<union> triples_of tokenize dlc thr ex f r
                 {(s, e). s \<in> set (pre @ [x]) \<and> s \<le> e \<and> e < ?m s}
               = ?C0 \<union> triples_of tokenize dlc thr ex f r (Pair x ` {x..<?m x})"
      by (simp only: triples_of_Un Un_assoc)
    then have "I (pre @ [x]) st1" using st1(2,3,4) that(2) by (simp add: I_def)
    then show ?thesis using st1(1) by blast
  qed
  have "\<exists>st'. fold_err ?body [0..<n] st = Inr st' \<and> I ([] @ [0..<n]) st'"
  proof (rule fold_err_track [where I = I and f = ?body])
    show "I [] st" by (rule init)
  next
    fix x pre st0 assume "x \<in> set [0..<n]" "I pre st0"
    then show "\<exists>s'. ?body x st0 = Inr s' \<and> I (pre @ [x]) s'"
      by (rule step)
  qed
  then show ?thesis by (auto simp: I_def)
qed

lemma triples_of_admissible:
  assumes "\<forall>k. f_token_to_word_map f k \<noteq> None \<longrightarrow> 0 \<le> k \<and> k < int n"
  shows "triples_of tokenize dlc thr ex f r
           {(s, e). s < n \<and> s \<le> e \<and> e < nat (min (int n) (int s + L - 1))}
         = cand_triples tokenize dlc L thr ex f r"
proof -
  have "{(s, e). (s, e) \<in> {(s, e). s < n \<and> s \<le> e \<and> e < nat (min (int n) (int s + L - 1))}
                 \<and> passes f r thr s e}
        = {(s, e). admissible f r L thr s e}"
  proof (intro set_eqI iffI; clarify)
    fix s e
    assume "s < n" "s \<le> e" "e < nat (min (int n) (int s + L - 1))" "passes f r thr s e"
    then show "admissible f r L thr s e"
      by (auto simp: admissible_def passes_def)
  next
    fix s e assume a: "admissible f r L thr s e"
    then have "f_token_to_word_map f (int e) \<noteq> None" by (simp add: admissible_def)
    then have e: "e < n" using assms by fastforce
    have se: "s \<le> e" "int e < int s + L - 1" using a by (simp_all add: admissible_def)
    then have "e < nat (min (int n) (int s + L - 1))" using e by simp
    moreover have "passes f r thr s e" using a by (simp add: admissible_def passes_def)
    ultimately show "(s, e) \<in> {(s, e). s < n \<and> s \<le> e \<and> e < nat (min (int n) (int s + L - 1))}
                     \<and> passes f r thr s e"
      using se e by simp
  qed
  then show ?thesis unfolding triples_of_def cand_triples_def by simp
qed

lemma wp_result_step:
  assumes f: "i2f (r_unique_id r) = Some f" and ex: "i2e (r_unique_id r) = Some ex"
    and "length (f_tokens f) \<le> length (r_filter_start_logits r)"
    and "length (f_tokens f) \<le> length (r_filter_end_logits r)"
    and "length (f_tokens f) \<le> length (r_all_logits r)"
    and "\<forall>row\<in>set (take (length (f_tokens f)) (r_all_logits r)). length (f_tokens f) \<le> length row"
    and keys: "\<forall>k. f_token_to_word_map f k \<noteq> None \<longrightarrow> 0 \<le> k \<and> k < int (length (f_tokens f))"
    and inv: "wp_inv C st"
  shows "\<exists>st'. wp_result tokenize dlc L thr i2f i2e r st = Inr st' \<and>
           wp_inv (C \<union> cand_triples tokenize dlc L thr ex f r) st' \<and>
           wp_token_count st' = wp_token_count st + length (f_tokens f) \<and>
           wp_loss st' = wp_loss st @ [r_loss r]"
proof -
  let ?n = "length (f_tokens f)"
  let ?st0 = "st \<lparr> wp_loss := wp_loss st @ [r_loss r],
                   wp_token_count := wp_token_count st + ?n \<rparr>"
  have inv0: "wp_inv C ?st0" using inv by (simp add: wp_inv_def)
  from wp_outer [OF assms(3-6) inv0, of tokenize dlc thr ex f L]
  obtain st1 where st1:
    "fold_err (\<lambda>start_index.
        fold_err (wp_pair tokenize dlc thr ex f r (ex_qas_id ex) start_index)
          [start_index ..< nat (min (int ?n) (int start_index + L - 1))])
      [0..<?n] ?st0 = Inr st1"
    "wp_inv (C \<union> triples_of tokenize dlc thr ex f r
               {(s, e). s < ?n \<and> s \<le> e \<and> e < nat (min (int ?n) (int s + L - 1))}) st1"
    "wp_token_count st1 = wp_token_count ?st0" "wp_loss st1 = wp_loss ?st0"
    by blast
  have inv1: "wp_inv (C \<union> cand_triples tokenize dlc L thr ex f r) st1"
    using st1(2) by (simp only: triples_of_admissible [OF keys])
  have noassert: "\<not> (wp_predictions st1 (ex_qas_id ex) = None \<and> wp_scores st1 (ex_qas_id ex) \<noteq> None)"
    using inv1 unfolding wp_inv_def by (metis option.distinct(1) option.exhaust)
  have "wp_result tokenize dlc L thr i2f i2e r st = Inr st1"
    using f ex st1(1) noassert
    by (simp add: wp_result_def Let_def py_lookup_def bind_err_def)
  then show ?thesis using inv1 st1(3,4) by simp
qed

lemma id2feature_mem:
  "id2feature all_features uid = Some g \<Longrightarrow> g \<in> set all_features \<and> f_unique_id g = uid"
  unfolding id2feature_def by (auto dest!: map_of_SomeD)

lemma id2example_ok:
  assumes "list_all (\<lambda>f. \<not> isl (py_index all_examples (f_example_index f))) all_features"
  shows "id2example all_examples all_features =
           Inr (\<lambda>uid. case id2feature all_features uid of
                        None \<Rightarrow> None
                      | Some g \<Rightarrow> (case py_index all_examples (f_example_index g) of
                                     Inl e \<Rightarrow> None | Inr ex \<Rightarrow> Some ex))"
proof -
  have "list_all (\<lambda>f. case id2feature all_features (f_unique_id f) of
                          None \<Rightarrow> True
                        | Some g \<Rightarrow> \<not> isl (py_index all_examples (f_example_index g))) all_features"
    unfolding list_all_iff
  proof
    fix f assume "f \<in> set all_features"
    show "case id2feature all_features (f_unique_id f) of
            None \<Rightarrow> True
          | Some g \<Rightarrow> \<not> isl (py_index all_examples (f_example_index g))"
    proof (cases "id2feature all_features (f_unique_id f)")
      case None
      then show ?thesis by simp
    next
      case (Some g)
      then have "g \<in> set all_features" using id2feature_mem by blast
      then show ?thesis using assms Some by (simp add: list_all_iff)
    qed
  qed
  then show ?thesis by (simp add: id2example_def Let_def)
qed

lemma result_cands_iff:
  "(q, v, t) \<in> (\<Union>r\<in>set all_results.
                   result_cands tokenize dlc all_examples all_features L thr r) \<longleftrightarrow>
     (\<exists>r s e. is_candidate all_examples all_features all_results L thr q r s e \<and>
              v = candidate_score r s e \<and>
              t = candidate_text tokenize dlc all_examples all_features r s e)"
  (is "?lhs \<longleftrightarrow> ?rhs")
proof
  assume ?lhs
  then obtain r where r: "r \<in> set all_results"
    "(q, v, t) \<in> result_cands tokenize dlc all_examples all_features L thr r" by blast
  then obtain f ex where f: "id2feature all_features (r_unique_id r) = Some f"
    and ex: "py_index all_examples (f_example_index f) = Inr ex"
    and c: "(q, v, t) \<in> cand_triples tokenize dlc L thr ex f r"
    by (auto simp: result_cands_def split: option.splits sum.splits)
  from c obtain s e where se: "admissible f r L thr s e" "q = ex_qas_id ex"
    "v = r_all_logits r ! s ! e" "t = span_text tokenize dlc ex f s e"
    by (auto simp: cand_triples_def)
  have "is_candidate all_examples all_features all_results L thr q r s e"
    using r(1) f ex se(1,2) by (auto simp: is_candidate_def)
  moreover have "t = candidate_text tokenize dlc all_examples all_features r s e"
    using f ex se(4) by (simp add: candidate_text_def span_text_def)
  ultimately show ?rhs using se(3) by (auto simp: candidate_score_def)
next
  assume ?rhs
  then obtain r s e where c: "is_candidate all_examples all_features all_results L thr q r s e"
    and v: "v = candidate_score r s e"
    and t: "t = candidate_text tokenize dlc all_examples all_features r s e" by blast
  from c obtain f ex where r: "r \<in> set all_results"
    and f: "id2feature all_features (r_unique_id r) = Some f"
    and ex: "py_index all_examples (f_example_index f) = Inr ex"
    and q: "ex_qas_id ex = q" and a: "admissible f r L thr s e"
    by (auto simp: is_candidate_def)
  have "t = span_text tokenize dlc ex f s e"
    using t f ex by (simp add: candidate_text_def span_text_def)
  then have "(q, v, t) \<in> cand_triples tokenize dlc L thr ex f r"
    using a q v unfolding cand_triples_def candidate_score_def by force
  then have "(q, v, t) \<in> result_cands tokenize dlc all_examples all_features L thr r"
    using f ex by (simp add: result_cands_def)
  then show ?lhs using r by blast
qed

lemma wp_loop:
  assumes ok: "inputs_ok all_examples all_features all_results"
    and i2e: "i2e = (\<lambda>uid. case id2feature all_features uid of
                        None \<Rightarrow> None
                      | Some g \<Rightarrow> (case py_index all_examples (f_example_index g) of
                                     Inl e \<Rightarrow> None | Inr ex \<Rightarrow> Some ex))"
    and st0: "wp_predictions st0 = Map.empty" "wp_scores st0 = Map.empty" "wp_loss st0 = []"
  shows "\<exists>st. fold_err (wp_result tokenize dlc L thr (id2feature all_features) i2e)
                 all_results st0 = Inr st \<and>
           wp_inv (\<Union>r\<in>set all_results.
                     result_cands tokenize dlc all_examples all_features L thr r) st \<and>
           length (wp_loss st) = length all_results \<and>
           (\<forall>r\<in>set all_results. \<forall>f. id2feature all_features (r_unique_id r) = Some f \<longrightarrow>
                length (f_tokens f) \<le> wp_token_count st)"
proof -
  let ?i2f = "id2feature all_features"
  let ?step = "wp_result tokenize dlc L thr ?i2f i2e"
  define I where "I = (\<lambda>pre st.
      wp_inv (\<Union>r\<in>set pre. result_cands tokenize dlc all_examples all_features L thr r) st \<and>
      length (wp_loss st) = length pre \<and>
      (\<forall>r\<in>set pre. \<forall>f. ?i2f (r_unique_id r) = Some f \<longrightarrow>
           length (f_tokens f) \<le> wp_token_count st))"
  have init: "I [] st0" using st0 by (simp add: I_def wp_inv_def)
  have step: "\<exists>s'. ?step r st = Inr s' \<and> I (pre @ [r]) s'"
    if "r \<in> set all_results" "I pre st" for r pre st
  proof -
    have rok: "result_ok all_examples all_features r"
      using ok that(1) by (simp add: inputs_ok_def list_all_iff)
    then obtain f where f: "?i2f (r_unique_id r) = Some f"
      by (auto simp: result_ok_def split: option.splits)
    have arr: "length (f_tokens f) \<le> length (r_filter_start_logits r)"
      "length (f_tokens f) \<le> length (r_filter_end_logits r)"
      "length (f_tokens f) \<le> length (r_all_logits r)"
      "\<forall>row\<in>set (take (length (f_tokens f)) (r_all_logits r)). length (f_tokens f) \<le> length row"
      "\<forall>k. f_token_to_word_map f k \<noteq> None \<longrightarrow> 0 \<le> k \<and> k < int (length (f_tokens f))"
      using rok f by (simp_all add: result_ok_def Let_def list_all_iff)
    have "f \<in> set all_features" using f id2feature_mem by blast
    then have "\<not> isl (py_index all_examples (f_example_index f))"
      using ok by (simp add: inputs_ok_def list_all_iff)
    then obtain ex where ex: "py_index all_examples (f_example_index f) = Inr ex"
      by (cases "py_index all_examples (f_example_index f)") auto
    have e: "i2e (r_unique_id r) = Some ex" using f ex by (simp add: i2e)
    have inv: "wp_inv (\<Union>r\<in>set pre. result_cands tokenize dlc all_examples all_features L thr r) st"
      using that(2) by (simp add: I_def)
    from wp_result_step [where ?i2f = ?i2f and ?i2e = i2e and ?tokenize = tokenize
                           and ?dlc = dlc and ?L = L and ?thr = thr, OF f e arr inv]
    obtain st' where st': "?step r st = Inr st'"
      "wp_inv ((\<Union>r\<in>set pre. result_cands tokenize dlc all_examples all_features L thr r)
               \<union> cand_triples tokenize dlc L thr ex f r) st'"
      "wp_token_count st' = wp_token_count st + length (f_tokens f)"
      "wp_loss st' = wp_loss st @ [r_loss r]"
      by blast
    have rc: "result_cands tokenize dlc all_examples all_features L thr r
                = cand_triples tokenize dlc L thr ex f r"
      using f ex by (simp add: result_cands_def)
    have "(\<Union>r\<in>set (pre @ [r]). result_cands tokenize dlc all_examples all_features L thr r)
            = (\<Union>r\<in>set pre. result_cands tokenize dlc all_examples all_features L thr r)
               \<union> cand_triples tokenize dlc L thr ex f r"
      using rc by auto
    then have 1: "wp_inv (\<Union>r\<in>set (pre @ [r]).
                     result_cands tokenize dlc all_examples all_features L thr r) st'"
      using st'(2) by simp
    have 2: "length (wp_loss st') = length (pre @ [r])"
      using st'(4) that(2) by (simp add: I_def)
    have 3: "\<forall>r'\<in>set (pre @ [r]). \<forall>f'. ?i2f (r_unique_id r') = Some f' \<longrightarrow>
               length (f_tokens f') \<le> wp_token_count st'"
    proof (intro ballI allI impI)
      fix r' f' assume r': "r' \<in> set (pre @ [r])" and f': "?i2f (r_unique_id r') = Some f'"
      show "length (f_tokens f') \<le> wp_token_count st'"
      proof (cases "r' \<in> set pre")
        case True
        then have "length (f_tokens f') \<le> wp_token_count st"
          using that(2) f' by (auto simp: I_def)
        then show ?thesis using st'(3) by simp
      next
        case False
        then have "r' = r" using r' by simp
        then have "f' = f" using f f' by simp
        then show ?thesis using st'(3) by simp
      qed
    qed
    show ?thesis using st'(1) 1 2 3 unfolding I_def by blast
  qed
  have "\<exists>st. fold_err ?step all_results st0 = Inr st \<and> I ([] @ all_results) st"
  proof (rule fold_err_track [where I = I and f = ?step])
    show "I [] st0" by (rule init)
  next
    fix x pre st assume "x \<in> set all_results" "I pre st"
    then show "\<exists>s'. ?step x st = Inr s' \<and> I (pre @ [x]) s'" by (rule step)
  qed
  then show ?thesis by (auto simp: I_def)
qed

text \<open>The same invariants for a run that is only known to have returned.\<close>

lemma fold_err_track_cond:
  assumes "fold_err f xs s = Inr s'" and "I pre s"
    and "\<And>x pre s s'. x \<in> set xs \<Longrightarrow> I pre s \<Longrightarrow> f x s = Inr s' \<Longrightarrow> I (pre @ [x]) s'"
  shows "I (pre @ xs) s'"
  using assms
proof (induction xs arbitrary: pre s)
  case Nil
  then show ?case by simp
next
  case (Cons x xs)
  from Cons.prems(1) obtain s1 where s1: "f x s = Inr s1" "fold_err f xs s1 = Inr s'"
    by (auto simp: bind_err_Inr_iff)
  have I1: "I (pre @ [x]) s1" using Cons.prems(2,3) s1(1) by simp
  have "I ((pre @ [x]) @ xs) s'"
  proof (rule Cons.IH [OF s1(2) I1])
    fix y pre' t t'
    assume "y \<in> set xs" "I pre' t" "f y t = Inr t'"
    then show "I (pre' @ [y]) t'" using Cons.prems(3) [of y pre' t t'] by simp
  qed
  then show ?case by simp
qed

lemma wp_pair_cond:
  assumes run: "wp_pair tokenize dlc thr ex f r q s e st = Inr st'" and inv: "wp_inv C st"
  shows "wp_inv (C \<union> (if passes f r thr s e
                       then {(q, r_all_logits r ! s ! e, span_text tokenize dlc ex f s e)}
                       else {})) st' \<and>
         wp_token_count st' = wp_token_count st \<and> wp_loss st' = wp_loss st"
proof (cases "f_token_to_word_map f (int s) \<noteq> None \<and> f_token_to_word_map f (int e) \<noteq> None \<and>
              f_token_is_max_context f (int s) = Some True")
  case False
  then have "wp_pair tokenize dlc thr ex f r q s e st = Inr st"
    by (auto simp: wp_pair_def max_context_get)
  then have "st' = st" using run by simp
  moreover have "\<not> passes f r thr s e" using False by (auto simp: passes_def)
  ultimately show ?thesis using inv by simp
next
  case True
  have b: "s < length (r_filter_start_logits r)" "e < length (r_filter_end_logits r)"
    using run True
    by (auto simp: wp_pair_def max_context_get bind_err_Inr_iff py_nth_Inr split: if_splits)
  show ?thesis
  proof (cases "r_filter_start_logits r ! s < thr \<or> r_filter_end_logits r ! e < thr")
    case low: True
    then have "wp_pair tokenize dlc thr ex f r q s e st = Inr st"
      using True b by (auto simp: wp_pair_def max_context_get py_nth_def bind_err_def)
    then have "st' = st" using run by simp
    moreover have "\<not> passes f r thr s e" using low by (auto simp: passes_def)
    ultimately show ?thesis using inv by simp
  next
    case high: False
    have b2: "s < length (r_all_logits r)" "e < length (r_all_logits r ! s)"
      using run True b high
      by (auto simp: wp_pair_def max_context_get bind_err_def py_nth_def Let_def
               split: if_splits)
    from wp_pair_step [OF b b2 inv, of tokenize dlc thr ex f q]
    show ?thesis using run by auto
  qed
qed

lemma wp_inner_cond:
  assumes run: "fold_err (wp_pair tokenize dlc thr ex f r (ex_qas_id ex) s) [s..<m] st = Inr st'"
    and inv: "wp_inv C st"
  shows "wp_inv (C \<union> triples_of tokenize dlc thr ex f r (Pair s ` {s..<m})) st' \<and>
         wp_token_count st' = wp_token_count st \<and> wp_loss st' = wp_loss st"
proof -
  define I where "I = (\<lambda>pre st'.
      wp_inv (C \<union> triples_of tokenize dlc thr ex f r (Pair s ` set pre)) st' \<and>
      wp_token_count st' = wp_token_count st \<and> wp_loss st' = wp_loss st)"
  have init: "I [] st" using inv by (simp add: I_def triples_of_empty)
  have "I ([] @ [s..<m]) st'"
  proof (rule fold_err_track_cond [where I = I, OF run init])
    fix x pre st0 st1
    assume "x \<in> set [s..<m]" and I0: "I pre st0"
      and r1: "wp_pair tokenize dlc thr ex f r (ex_qas_id ex) s x st0 = Inr st1"
    have inv0: "wp_inv (C \<union> triples_of tokenize dlc thr ex f r (Pair s ` set pre)) st0"
      using I0 by (simp add: I_def)
    from wp_pair_cond [OF r1 inv0]
    have st1: "wp_inv ((C \<union> triples_of tokenize dlc thr ex f r (Pair s ` set pre)) \<union>
               triples_of tokenize dlc thr ex f r {(s, x)}) st1"
      "wp_token_count st1 = wp_token_count st0" "wp_loss st1 = wp_loss st0"
      by (auto simp: triples_of_single)
    have "Pair s ` set (pre @ [x]) = Pair s ` set pre \<union> {(s, x)}" by auto
    then have "C \<union> triples_of tokenize dlc thr ex f r (Pair s ` set (pre @ [x]))
                 = (C \<union> triples_of tokenize dlc thr ex f r (Pair s ` set pre)) \<union>
                   triples_of tokenize dlc thr ex f r {(s, x)}"
      by (simp only: triples_of_Un Un_assoc)
    then show "I (pre @ [x]) st1" using st1 I0 by (simp add: I_def)
  qed
  then show ?thesis by (simp add: I_def)
qed

lemma wp_outer_cond:
  assumes run: "fold_err (\<lambda>start_index.
                   fold_err (wp_pair tokenize dlc thr ex f r (ex_qas_id ex) start_index)
                     [start_index ..< nat (min (int n) (int start_index + L - 1))])
                 [0..<n] st = Inr st'"
    and inv: "wp_inv C st"
  shows "wp_inv (C \<union> triples_of tokenize dlc thr ex f r
                     {(s, e). s < n \<and> s \<le> e \<and> e < nat (min (int n) (int s + L - 1))}) st' \<and>
         wp_token_count st' = wp_token_count st \<and> wp_loss st' = wp_loss st"
proof -
  let ?m = "\<lambda>s. nat (min (int n) (int s + L - 1))"
  let ?body = "\<lambda>start_index.
                   fold_err (wp_pair tokenize dlc thr ex f r (ex_qas_id ex) start_index)
                     [start_index ..< ?m start_index]"
  define I where "I = (\<lambda>pre st'.
      wp_inv (C \<union> triples_of tokenize dlc thr ex f r
                {(s, e). s \<in> set pre \<and> s \<le> e \<and> e < ?m s}) st' \<and>
      wp_token_count st' = wp_token_count st \<and> wp_loss st' = wp_loss st)"
  have init: "I [] st" using inv by (simp add: I_def triples_of_empty)
  have "I ([] @ [0..<n]) st'"
  proof (rule fold_err_track_cond [where I = I and f = ?body, OF run init])
    fix x pre st0 st1
    assume "x \<in> set [0..<n]" and I0: "I pre st0" and r1: "?body x st0 = Inr st1"
    let ?C0 = "C \<union> triples_of tokenize dlc thr ex f r {(s, e). s \<in> set pre \<and> s \<le> e \<and> e < ?m s}"
    have inv0: "wp_inv ?C0 st0" using I0 by (simp add: I_def)
    from wp_inner_cond [OF r1 inv0]
    have st1: "wp_inv (?C0 \<union> triples_of tokenize dlc thr ex f r (Pair x ` {x..<?m x})) st1"
      "wp_token_count st1 = wp_token_count st0" "wp_loss st1 = wp_loss st0"
      by simp_all
    have "{(s, e). s \<in> set (pre @ [x]) \<and> s \<le> e \<and> e < ?m s}
            = {(s, e). s \<in> set pre \<and> s \<le> e \<and> e < ?m s} \<union> Pair x ` {x..<?m x}"
      by auto
    then have "C \<union> triples_of tokenize dlc thr ex f r
                 {(s, e). s \<in> set (pre @ [x]) \<and> s \<le> e \<and> e < ?m s}
               = ?C0 \<union> triples_of tokenize dlc thr ex f r (Pair x ` {x..<?m x})"
      by (simp only: triples_of_Un Un_assoc)
    then show "I (pre @ [x]) st1" using st1 I0 by (simp add: I_def)
  qed
  then show ?thesis by (simp add: I_def)
qed

lemma wp_result_cond:
  assumes run: "wp_result tokenize dlc L thr i2f i2e r st = Inr st'"
    and keys: "\<forall>f. i2f (r_unique_id r) = Some f \<longrightarrow>
                 (\<forall>k. f_token_to_word_map f k \<noteq> None \<longrightarrow> 0 \<le> k \<and> k < int (length (f_tokens f)))"
    and inv: "wp_inv C st"
  shows "\<exists>f ex. i2f (r_unique_id r) = Some f \<and> i2e (r_unique_id r) = Some ex \<and>
           wp_inv (C \<union> cand_triples tokenize dlc L thr ex f r) st' \<and>
           wp_token_count st' = wp_token_count st + length (f_tokens f) \<and>
           wp_loss st' = wp_loss st @ [r_loss r]"
proof -
  from run obtain f ex where f: "i2f (r_unique_id r) = Some f"
    and ex: "i2e (r_unique_id r) = Some ex"
    by (auto simp: wp_result_def Let_def bind_err_Inr_iff py_lookup_Inr)
  let ?n = "length (f_tokens f)"
  let ?st0 = "st \<lparr> wp_loss := wp_loss st @ [r_loss r],
                   wp_token_count := wp_token_count st + ?n \<rparr>"
  from run f ex obtain st1 where st1:
    "fold_err (\<lambda>start_index.
        fold_err (wp_pair tokenize dlc thr ex f r (ex_qas_id ex) start_index)
          [start_index ..< nat (min (int ?n) (int start_index + L - 1))])
      [0..<?n] ?st0 = Inr st1"
    and fin: "(if wp_predictions st1 (ex_qas_id ex) = None \<and> wp_scores st1 (ex_qas_id ex) \<noteq> None
               then Inl AssertionError else Inr st1) = Inr st'"
    by (auto simp: wp_result_def Let_def bind_err_Inr_iff py_lookup_def)
  have eq: "st' = st1" using fin by (auto split: if_splits)
  have inv0: "wp_inv C ?st0" using inv by (simp add: wp_inv_def)
  from wp_outer_cond [OF st1 inv0]
  have o: "wp_inv (C \<union> triples_of tokenize dlc thr ex f r
               {(s, e). s < ?n \<and> s \<le> e \<and> e < nat (min (int ?n) (int s + L - 1))}) st1"
    "wp_token_count st1 = wp_token_count ?st0" "wp_loss st1 = wp_loss ?st0"
    by simp_all
  have k: "\<forall>k. f_token_to_word_map f k \<noteq> None \<longrightarrow> 0 \<le> k \<and> k < int ?n"
    using keys f by blast
  have "wp_inv (C \<union> cand_triples tokenize dlc L thr ex f r) st1"
    using o(1) by (simp only: triples_of_admissible [OF k])
  then show ?thesis using f ex eq o(2,3) by simp
qed

lemma wp_loop_cond:
  assumes run: "fold_err (wp_result tokenize dlc L thr (id2feature all_features) i2e)
                  all_results st0 = Inr st"
    and keys: "keys_ok all_features all_results"
    and i2e: "i2e = (\<lambda>uid. case id2feature all_features uid of
                        None \<Rightarrow> None
                      | Some g \<Rightarrow> (case py_index all_examples (f_example_index g) of
                                     Inl e \<Rightarrow> None | Inr ex \<Rightarrow> Some ex))"
    and st0: "wp_predictions st0 = Map.empty" "wp_scores st0 = Map.empty" "wp_loss st0 = []"
  shows "wp_inv (\<Union>r\<in>set all_results.
                   result_cands tokenize dlc all_examples all_features L thr r) st \<and>
         length (wp_loss st) = length all_results \<and>
         (\<forall>r\<in>set all_results. \<forall>f. id2feature all_features (r_unique_id r) = Some f \<longrightarrow>
              length (f_tokens f) \<le> wp_token_count st)"
proof -
  let ?i2f = "id2feature all_features"
  let ?step = "wp_result tokenize dlc L thr ?i2f i2e"
  define I where "I = (\<lambda>pre st.
      wp_inv (\<Union>r\<in>set pre. result_cands tokenize dlc all_examples all_features L thr r) st \<and>
      length (wp_loss st) = length pre \<and>
      (\<forall>r\<in>set pre. \<forall>f. ?i2f (r_unique_id r) = Some f \<longrightarrow>
           length (f_tokens f) \<le> wp_token_count st))"
  have init: "I [] st0" using st0 by (simp add: I_def wp_inv_def)
  have "I ([] @ all_results) st"
  proof (rule fold_err_track_cond [where I = I and f = ?step, OF run init])
    fix r pre t t'
    assume r: "r \<in> set all_results" and I0: "I pre t" and r1: "?step r t = Inr t'"
    have k: "\<forall>f. ?i2f (r_unique_id r) = Some f \<longrightarrow>
               (\<forall>k. f_token_to_word_map f k \<noteq> None \<longrightarrow> 0 \<le> k \<and> k < int (length (f_tokens f)))"
      using keys r unfolding keys_ok_def by blast
    have inv: "wp_inv (\<Union>r\<in>set pre. result_cands tokenize dlc all_examples all_features L thr r) t"
      using I0 by (simp add: I_def)
    from wp_result_cond [OF r1 k inv]
    obtain f ex where f: "?i2f (r_unique_id r) = Some f" and e: "i2e (r_unique_id r) = Some ex"
      and t': "wp_inv ((\<Union>r\<in>set pre. result_cands tokenize dlc all_examples all_features L thr r)
               \<union> cand_triples tokenize dlc L thr ex f r) t'"
      "wp_token_count t' = wp_token_count t + length (f_tokens f)"
      "wp_loss t' = wp_loss t @ [r_loss r]"
      by blast
    have ex: "py_index all_examples (f_example_index f) = Inr ex"
      using e f unfolding i2e by (auto split: sum.splits)
    have rc: "result_cands tokenize dlc all_examples all_features L thr r
                = cand_triples tokenize dlc L thr ex f r"
      using f ex by (simp add: result_cands_def)
    have "(\<Union>r\<in>set (pre @ [r]). result_cands tokenize dlc all_examples all_features L thr r)
            = (\<Union>r\<in>set pre. result_cands tokenize dlc all_examples all_features L thr r)
               \<union> cand_triples tokenize dlc L thr ex f r"
      using rc by auto
    then have 1: "wp_inv (\<Union>r\<in>set (pre @ [r]).
                     result_cands tokenize dlc all_examples all_features L thr r) t'"
      using t'(1) by simp
    have 2: "length (wp_loss t') = length (pre @ [r])"
      using t'(3) I0 by (simp add: I_def)
    have 3: "\<forall>r'\<in>set (pre @ [r]). \<forall>f'. ?i2f (r_unique_id r') = Some f' \<longrightarrow>
               length (f_tokens f') \<le> wp_token_count t'"
    proof (intro ballI allI impI)
      fix r' f' assume r': "r' \<in> set (pre @ [r])" and f': "?i2f (r_unique_id r') = Some f'"
      show "length (f_tokens f') \<le> wp_token_count t'"
      proof (cases "r' \<in> set pre")
        case True
        then have "length (f_tokens f') \<le> wp_token_count t"
          using I0 f' by (auto simp: I_def)
        then show ?thesis using t'(2) by simp
      next
        case False
        then have "r' = r" using r' by simp
        then have "f' = f" using f f' by simp
        then show ?thesis using t'(2) by simp
      qed
    qed
    show "I (pre @ [r]) t'" using 1 2 3 unfolding I_def by blast
  qed
  then show ?thesis by (simp add: I_def)
qed

text \<open>From the invariant of the finished loop to the two output files.\<close>

lemma best_from_inv:
  assumes inv: "wp_inv (\<Union>r\<in>set all_results.
                   result_cands tokenize dlc all_examples all_features L thr r) st"
    and cand: "is_candidate all_examples all_features all_results L thr q r0 s0 e0"
    and out: "out_predictions out = wp_predictions st"
      "out_scores out = (\<lambda>k. map_option uminus (wp_scores st k))"
  shows "best_recorded tokenize dlc all_examples all_features all_results L thr out q"
proof -
  let ?C = "\<Union>r\<in>set all_results. result_cands tokenize dlc all_examples all_features L thr r"
  have inv': "\<And>q'. (wp_scores st q' = None \<longrightarrow>
               wp_predictions st q' = None \<and> (\<forall>c\<in>?C. fst c \<noteq> q')) \<and>
          (\<forall>v. wp_scores st q' = Some v \<longrightarrow>
               (\<exists>t. wp_predictions st q' = Some t \<and> (q', v, t) \<in> ?C) \<and>
               (\<forall>c\<in>?C. fst c = q' \<longrightarrow> fst (snd c) \<le> v))"
    using inv unfolding wp_inv_def by blast
  have "(q, candidate_score r0 s0 e0,
         candidate_text tokenize dlc all_examples all_features r0 s0 e0) \<in> ?C"
    using cand by (subst result_cands_iff) blast
  then have "wp_scores st q \<noteq> None" using inv' [of q] by fastforce
  then obtain v where v: "wp_scores st q = Some v" by blast
  then obtain t where t: "wp_predictions st q = Some t" "(q, v, t) \<in> ?C"
    using inv' [of q] by blast
  have mx: "\<forall>c\<in>?C. fst c = q \<longrightarrow> fst (snd c) \<le> v" using inv' [of q] v by blast
  from t(2) obtain r s e where rse:
    "is_candidate all_examples all_features all_results L thr q r s e"
    "v = candidate_score r s e"
    "t = candidate_text tokenize dlc all_examples all_features r s e"
    by (subst (asm) result_cands_iff) blast
  have best: "\<forall>r' s' e'.
                 is_candidate all_examples all_features all_results L thr q r' s' e'
                   \<longrightarrow> candidate_score r' s' e' \<le> candidate_score r s e"
  proof (intro allI impI)
    fix r' s' e'
    assume "is_candidate all_examples all_features all_results L thr q r' s' e'"
    then have "(q, candidate_score r' s' e',
                candidate_text tokenize dlc all_examples all_features r' s' e') \<in> ?C"
      by (subst result_cands_iff) blast
    then show "candidate_score r' s' e' \<le> candidate_score r s e"
      using mx rse(2) by fastforce
  qed
  have "out_predictions out q
          = Some (candidate_text tokenize dlc all_examples all_features r s e)"
    using t(1) rse(3) out(1) by simp
  moreover have "out_scores out q = Some (- candidate_score r s e)"
    using v rse(2) out(2) by simp
  ultimately show ?thesis unfolding best_recorded_def using rse(1) best by blast
qed

lemma write_predictions_total:
  assumes ok: "inputs_ok all_examples all_features all_results"
    and cand: "is_candidate all_examples all_features all_results max_answer_length threshold
                 q r0 s0 e0"
  shows "\<exists>out. write_predictions tokenize all_examples all_features all_results
                  max_answer_length do_lower_case threshold = Inr out \<and>
           best_recorded tokenize do_lower_case all_examples all_features all_results
             max_answer_length threshold out q"
proof -
  let ?i2f = "id2feature all_features"
  let ?i2e = "\<lambda>uid. case id2feature all_features uid of
                        None \<Rightarrow> None
                      | Some g \<Rightarrow> (case py_index all_examples (f_example_index g) of
                                     Inl e \<Rightarrow> None | Inr ex \<Rightarrow> Some ex)"
  let ?st0 = "\<lparr> wp_token_count = 0, wp_vec_count = 0, wp_predictions = Map.empty,
                wp_scores = Map.empty, wp_loss = [] \<rparr>"
  have i2e: "id2example all_examples all_features = Inr ?i2e"
    using ok by (simp add: inputs_ok_def id2example_ok)
  from wp_loop [OF ok refl, of ?st0 tokenize do_lower_case max_answer_length threshold]
  obtain st where st:
    "fold_err (wp_result tokenize do_lower_case max_answer_length threshold ?i2f ?i2e)
       all_results ?st0 = Inr st"
    "wp_inv (\<Union>r\<in>set all_results.
              result_cands tokenize do_lower_case all_examples all_features
                max_answer_length threshold r) st"
    "length (wp_loss st) = length all_results"
    "\<forall>r\<in>set all_results. \<forall>f. ?i2f (r_unique_id r) = Some f \<longrightarrow>
         length (f_tokens f) \<le> wp_token_count st"
    by auto
  from cand obtain f0 ex0 where r0: "r0 \<in> set all_results"
    and f0: "?i2f (r_unique_id r0) = Some f0"
    and a0: "admissible f0 r0 max_answer_length threshold s0 e0"
    by (auto simp: is_candidate_def)
  have "result_ok all_examples all_features r0"
    using ok r0 by (simp add: inputs_ok_def list_all_iff)
  then have "\<forall>k. f_token_to_word_map f0 k \<noteq> None \<longrightarrow> 0 \<le> k \<and> k < int (length (f_tokens f0))"
    using f0 by (simp add: result_ok_def Let_def)
  moreover have "f_token_to_word_map f0 (int e0) \<noteq> None" using a0 by (simp add: admissible_def)
  ultimately have "0 < length (f_tokens f0)" by fastforce
  moreover have "length (f_tokens f0) \<le> wp_token_count st" using st(4) r0 f0 by blast
  ultimately have tc: "wp_token_count st \<noteq> 0" by linarith
  have ll: "length (wp_loss st) \<noteq> 0" using st(3) r0 by auto
  define out where "out = \<lparr> out_predictions = wp_predictions st,
                   out_scores = (\<lambda>k. map_option uminus (wp_scores st k)),
                   out_mean_loss = sum_list (wp_loss st) / real (length (wp_loss st)) \<rparr>"
  have run: "write_predictions tokenize all_examples all_features all_results
               max_answer_length do_lower_case threshold = Inr out"
    using i2e st(1) tc ll by (simp add: write_predictions_def Let_def bind_err_def out_def)
  have "best_recorded tokenize do_lower_case all_examples all_features all_results
          max_answer_length threshold out q"
    by (rule best_from_inv [OF st(2) cand]) (simp_all add: out_def)
  then show ?thesis using run by blast
qed

lemma id2example_Inr:
  assumes "id2example all_examples all_features = Inr i2e"
  shows "i2e = (\<lambda>uid. case id2feature all_features uid of
                        None \<Rightarrow> None
                      | Some g \<Rightarrow> (case py_index all_examples (f_example_index g) of
                                     Inl e \<Rightarrow> None | Inr ex \<Rightarrow> Some ex))"
  using assms by (auto simp: id2example_def Let_def split: if_splits)

lemma write_predictions_partial:
  assumes run: "write_predictions tokenize all_examples all_features all_results
                  max_answer_length do_lower_case threshold = Inr out"
    and keys: "keys_ok all_features all_results"
    and cand: "is_candidate all_examples all_features all_results max_answer_length threshold
                 q r0 s0 e0"
  shows "best_recorded tokenize do_lower_case all_examples all_features all_results
           max_answer_length threshold out q"
proof -
  let ?st0 = "\<lparr> wp_token_count = 0, wp_vec_count = 0, wp_predictions = Map.empty,
                wp_scores = Map.empty, wp_loss = [] \<rparr>"
  from run obtain i2e st where i2e: "id2example all_examples all_features = Inr i2e"
    and loop: "fold_err (wp_result tokenize do_lower_case max_answer_length threshold
                 (id2feature all_features) i2e) all_results ?st0 = Inr st"
    and fin: "(if wp_token_count st = 0 then Inl ZeroDivisionError
        else if length (wp_loss st) = 0 then Inl ZeroDivisionError
        else Inr \<lparr> out_predictions = wp_predictions st,
                   out_scores = (\<lambda>k. map_option uminus (wp_scores st k)),
                   out_mean_loss = sum_list (wp_loss st) / real (length (wp_loss st)) \<rparr>) = Inr out"
    unfolding write_predictions_def Let_def bind_err_Inr_iff by blast
  have out: "out_predictions out = wp_predictions st"
    "out_scores out = (\<lambda>k. map_option uminus (wp_scores st k))"
    using fin by (auto split: if_splits)
  from wp_loop_cond [OF loop keys id2example_Inr [OF i2e]]
  have "wp_inv (\<Union>r\<in>set all_results.
              result_cands tokenize do_lower_case all_examples all_features
                max_answer_length threshold r) st"
    by simp
  then show ?thesis using cand out by (rule best_from_inv)
qed

text \<open>
  Claim C3. For every question with at least one admissible candidate,
  \<open>write_predictions\<close> records as the prediction of the question the de-tokenized text of
  an admissible candidate whose score \<open>all_logits[start_index, end_index]\<close> is the
  highest among the admissible candidates of the question, and the scores file maps the
  question id to the negation of that score. This holds of every run that returns, when
  the keys of the token-to-word maps are token positions; and the run does return for
  inputs as the pipeline produces them (every result has a feature and an example, and
  its score arrays cover the tokens of the feature).
\<close>

theorem write_predictions_best_candidate:
  "(inputs_ok all_examples all_features all_results \<and>
    is_candidate all_examples all_features all_results max_answer_length threshold q r0 s0 e0
      \<longrightarrow> (\<exists>out. write_predictions tokenize all_examples all_features all_results
                    max_answer_length do_lower_case threshold = Inr out \<and>
                  best_recorded tokenize do_lower_case all_examples all_features all_results
                    max_answer_length threshold out q)) \<and>
   (write_predictions tokenize all_examples all_features all_results
      max_answer_length do_lower_case threshold = Inr out' \<and>
    keys_ok all_features all_results \<and>
    is_candidate all_examples all_features all_results max_answer_length threshold q r0 s0 e0
      \<longrightarrow> best_recorded tokenize do_lower_case all_examples all_features all_results
            max_answer_length threshold out' q)"
  using write_predictions_total [of all_examples all_features all_results max_answer_length
          threshold q r0 s0 e0 tokenize do_lower_case]
        write_predictions_partial [of tokenize all_examples all_features all_results
          max_answer_length do_lower_case threshold out' q r0 s0 e0]
  by blast

lemma write_predictions_example:
  "write_predictions whitespace_tokenize [example_doc] [nq_feature_example] [nq_result_example]
     3 False (1 / 2) = Inr wp_output_example"
  by (simp add: write_predictions_def id2example_def id2feature_def wp_result_def wp_pair_def
        get_final_text_span_def get_final_text_def whitespace_tokenize_def str_split_def
        str_strip_def py_isspace_def str_find_def py_slice_def py_index_def py_lookup_def
        py_nth_def bind_err_def nq_feature_example_def nq_result_example_def example_doc_def
        wp_output_example_def upt_rec Let_def fun_eq_iff)

theorem write_predictions_best_candidate_witness:
  "inputs_ok [example_doc] [nq_feature_example] [nq_result_example] \<and>
   keys_ok [nq_feature_example] [nq_result_example] \<and>
   is_candidate [example_doc] [nq_feature_example] [nq_result_example] 3 (1 / 2)
     ''q1'' nq_result_example 1 2 \<and>
   write_predictions whitespace_tokenize [example_doc] [nq_feature_example] [nq_result_example]
     3 False (1 / 2) = Inr wp_output_example \<and>
   out_predictions wp_output_example ''q1'' = Some ''New York'' \<and>
   out_scores wp_output_example ''q1'' = Some (- 5) \<and>
   candidate_score nq_result_example 1 2 = 5 \<and>
   best_recorded whitespace_tokenize False [example_doc] [nq_feature_example]
     [nq_result_example] 3 (1 / 2) wp_output_example ''q1''"
proof -
  have ok: "inputs_ok [example_doc] [nq_feature_example] [nq_result_example]"
    by (simp add: inputs_ok_def result_ok_def id2feature_def nq_feature_example_def
          nq_result_example_def py_index_def example_doc_def)
  have keys: "keys_ok [nq_feature_example] [nq_result_example]"
    by (simp add: keys_ok_def id2feature_def nq_feature_example_def nq_result_example_def)
  have cand: "is_candidate [example_doc] [nq_feature_example] [nq_result_example] 3 (1 / 2)
                ''q1'' nq_result_example 1 2"
    by (simp add: is_candidate_def admissible_def id2feature_def nq_feature_example_def
          nq_result_example_def py_index_def example_doc_def)
  have "best_recorded whitespace_tokenize False [example_doc] [nq_feature_example]
     [nq_result_example] 3 (1 / 2) wp_output_example ''q1''"
    using write_predictions_best_candidate
            [of "[example_doc]" "[nq_feature_example]" "[nq_result_example]" 3 "1 / 2" "''q1''"
                nq_result_example 1 2 whitespace_tokenize False wp_output_example]
          write_predictions_example keys cand
    by blast
  then show ?thesis
    using ok keys cand write_predictions_example
    by (simp add: wp_output_example_def candidate_score_def nq_result_example_def)
qed

subsection \<open>Filtering extracted metadata\<close>

lemma get_metadata_dense_sparse_None:
  assumes "get_metadata tokenize id2ex features (result0 # rest) max_answer_length do_lower_case
             = Inr m"
    and "r_start_sp result0 = None"
  shows "md_sparse m = None"
proof -
  let ?results = "result0 # rest"
  let ?pairs = "zip features ?results"
  from assms(1) obtain start enda where
    "(case (None, None, None, None, []) of
        (input_ids, sparse_map, sparse_bi_map, sparse_tri_map, len_per_para) \<Rightarrow>
          bind_err (np_concatenate
                  (map (\<lambda>(feature, result). interior (r_filter_start_logits result) feature) ?pairs))
           (\<lambda>fs.
          bind_err (np_concatenate
                  (map (\<lambda>(feature, result). interior (r_filter_end_logits result) feature) ?pairs))
           (\<lambda>fe.
          if max_answer_length < 0 then Inl ValueError
          else
            bind_err (fold_err (span_table_feature max_answer_length) ?pairs
                    (replicate (length start) (replicate (nat max_answer_length) 0),
                     replicate (length start) (replicate (nat max_answer_length) (- 1)),
                     0))
              (\<lambda>(span_logits, start2end, idx).
            bind_err (fold_err (word2char_feature tokenize do_lower_case id2ex) features
                    ([], None, 0, replicate (length start) 0, replicate (length start) 0))
              (\<lambda>(full_text, prev_example, word_pos, word2char_start, word2char_end).
                 case prev_example of
                   None \<Rightarrow> Inl AttributeError
                 | Some prev \<Rightarrow>
                     Inr \<lparr> md_did = ex_doc_idx prev,
                       md_context = full_text @ join_space (ex_doc_words prev),
                       md_title = ex_title prev,
                       md_start = start, md_end = enda,
                       md_span_logits = span_logits, md_start2end = start2end,
                       md_word2char_start = word2char_start,
                       md_word2char_end = word2char_end,
                       md_filter_start = fs, md_filter_end = fe,
                       md_input_ids = input_ids,
                       md_sparse = sparse_map, md_sparse_bi = sparse_bi_map,
                       md_sparse_tri = sparse_tri_map,
                       md_len_per_para = len_per_para,
                       md_f2o_start = None, md_f2o_end = None \<rparr>))))) = Inr m"
    using assms(2)
    unfolding get_metadata_def Let_def
    by (auto simp: bind_err_Inr_iff py_nth_def)
  then show ?thesis
    by (auto simp: bind_err_Inr_iff split: if_splits prod.splits option.splits)
qed

lemma pool_func_dense_raises:
  assumes "r_start_sp result0 = None"
  shows "isl (pool_func tokenize id2ex features (result0 # rest) max_answer_length
                do_lower_case threshold)"
proof (cases "get_metadata tokenize id2ex features (result0 # rest) max_answer_length do_lower_case")
  case (Inl e)
  then show ?thesis by (simp add: pool_func_def bind_err_def)
next
  case (Inr m)
  then have "md_sparse m = None" using assms by (rule get_metadata_dense_sparse_None)
  then have "isl (filter_metadata m threshold)"
    using filter_metadata_sparse_None [of m threshold] by auto
  then show ?thesis using Inr by (simp add: pool_func_def bind_err_def)
qed

lemma get_metadata_example:
  "get_metadata whitespace_tokenize [100 \<mapsto> example_doc] [nq_feature_example]
     [nq_result_example] 2 False = Inr md_extracted_example"
  by (simp add: get_metadata_def np_concatenate_def interior_def py_slice_def py_nth_def
        span_table_feature_def span_table_cell_def get_cell_def set_cell_def set_item_def
        word2char_feature_def word2char_token_def get_final_text_span_def get_final_text_def
        whitespace_tokenize_def str_split_def str_strip_def py_isspace_def str_find_def
        py_lookup_def bind_err_def nq_feature_example_def nq_result_example_def
        example_doc_def md_extracted_example_def upt_rec Let_def numeral_2_eq_2)

text \<open>
  Claim C10. \<open>filter_metadata\<close> indexes \<open>metadata['sparse']\<close> unconditionally: on a record
  whose sparse field is \<open>None\<close> it raises (a \<open>TypeError\<close>, unless an earlier index is out
  of bounds), so it returns a record only if the sparse field is present. \<open>get_metadata\<close>
  leaves the field \<open>None\<close> when the first result has no sparse scores; so on every such
  record filtering raises, and \<open>pool_func\<close>, which filters what it extracts, raises for
  all results without sparse scores.
\<close>

theorem filter_metadata_requires_sparse:
  "(md_sparse m = None \<longrightarrow>
      filter_metadata m threshold = Inl IndexError \<or> filter_metadata m threshold = Inl TypeError) \<and>
   (filter_metadata m threshold = Inr m' \<longrightarrow> md_sparse m \<noteq> None) \<and>
   (r_start_sp result0 = None \<and>
    get_metadata tokenize id2ex features (result0 # rest) max_answer_length do_lower_case = Inr m
      \<longrightarrow> md_sparse m = None \<and> isl (filter_metadata m threshold)) \<and>
   (r_start_sp result0 = None \<longrightarrow>
      isl (pool_func tokenize id2ex features (result0 # rest) max_answer_length
             do_lower_case threshold))"
proof -
  have A: "md_sparse m = None \<longrightarrow>
      filter_metadata m threshold = Inl IndexError \<or> filter_metadata m threshold = Inl TypeError"
    using filter_metadata_sparse_None [of m threshold] by blast
  have B: "filter_metadata m threshold = Inr m' \<longrightarrow> md_sparse m \<noteq> None"
    using A by auto
  have C: "r_start_sp result0 = None \<and>
    get_metadata tokenize id2ex features (result0 # rest) max_answer_length do_lower_case = Inr m
      \<longrightarrow> md_sparse m = None \<and> isl (filter_metadata m threshold)"
    using get_metadata_dense_sparse_None [of tokenize id2ex features result0 rest
            max_answer_length do_lower_case m] A
    by auto
  have D: "r_start_sp result0 = None \<longrightarrow>
      isl (pool_func tokenize id2ex features (result0 # rest) max_answer_length
             do_lower_case threshold)"
    using pool_func_dense_raises by blast
  show ?thesis using A B C D by blast
qed

theorem filter_metadata_requires_sparse_witness:
  "r_start_sp nq_result_example = None \<and>
   get_metadata whitespace_tokenize [100 \<mapsto> example_doc] [nq_feature_example]
     [nq_result_example] 2 False = Inr md_extracted_example \<and>
   md_sparse md_extracted_example = None \<and>
   filter_metadata md_extracted_example (1 / 2) = Inl TypeError \<and>
   isl (pool_func whitespace_tokenize [100 \<mapsto> example_doc] [nq_feature_example]
          [nq_result_example] 2 False (1 / 2))"
proof -
  have n: "r_start_sp nq_result_example = None" by (simp add: nq_result_example_def)
  have s: "md_sparse md_extracted_example = None" by (simp add: md_extracted_example_def)
  have t: "filter_metadata md_extracted_example (1 / 2) = Inl TypeError"
    by (rule filter_metadata_sparse_None_TypeError)
       (simp_all add: md_extracted_example_def np_where_gt_def upt_rec)
  have "isl (pool_func whitespace_tokenize [100 \<mapsto> example_doc] [nq_feature_example]
          [nq_result_example] 2 False (1 / 2))"
    using filter_metadata_requires_sparse
            [of md_extracted_example "1 / 2" md_extracted_example nq_result_example
                whitespace_tokenize "[100 \<mapsto> example_doc]" "[nq_feature_example]" "[]" 2 False] n
    by blast
  then show ?thesis using n s t get_metadata_example by simp
qed

end
